theory Spec2Isabelle
  imports
    Complex_Main
    "HOL-Library.Char_ord"
    "HOL-Library.List_Lexorder"
    "HOL-Library.Product_Lexorder"
begin

section \<open>Python values used by the scheduler\<close>

text \<open>
  The program is a single Python module, \<^verbatim>\<open>app.py\<close>. A Python text is modelled as
  an Isabelle string whose characters are code points: the type \<open>char\<close> has 256
  values, so the texts of the model are those of code points below 256, and a text
  with a larger code point is not a value of the type. On these texts the three
  operations whose result depends on character classes (\<^verbatim>\<open>str.strip\<close>,
  \<^verbatim>\<open>str.isdigit\<close> and \<^verbatim>\<open>int(str)\<close>) are modelled as Python defines them. Everything
  else compares texts by equality only.

  A raised Python exception is a value of type \<open>error\<close>. \<open>ValueError\<close> is what
  \<^verbatim>\<open>int\<close> and tuple unpacking raise; \<open>ZeroDivisionError\<close> and \<open>OverflowError\<close>
  come from the division \<^verbatim>\<open>/\<close> of integers, and \<open>OverflowError\<close> also from
  \<^verbatim>\<open>sqlite3\<close> when an integer does not fit a 64-bit column; \<open>OperationalError\<close>
  is what \<^verbatim>\<open>sqlite3\<close> raises when the table has no key left. \<open>InvalidTimeFormat\<close>
  is the rejection of a clock text by the add-event handler (\<^verbatim>\<open>st.error\<close> at line
  647).
\<close>

datatype error =
  ValueError | ZeroDivisionError | OverflowError | OperationalError | InvalidTimeFormat

definition ascii_text :: "string \<Rightarrow> bool" where
  "ascii_text t = list_all (\<lambda>c. (of_char c :: nat) < 128) t"

text \<open>
  \<^verbatim>\<open>str.isspace\<close> of a character: tab, LF, VT, FF, CR, the separators 0x1C..0x1F,
  space, NEL (0x85) and the no-break space (0xA0).
\<close>

definition is_space :: "char \<Rightarrow> bool" where
  "is_space c =
     (let n = (of_char c :: nat)
      in (9 \<le> n \<and> n \<le> 13) \<or> (28 \<le> n \<and> n \<le> 32) \<or> n = 133 \<or> n = 160)"

text \<open>\<^verbatim>\<open>s.strip()\<close>: leading and trailing whitespace removed.\<close>

definition strip :: "string \<Rightarrow> string" where
  "strip s = rev (dropWhile is_space (rev (dropWhile is_space s)))"

text \<open>\<^verbatim>\<open>s.split(sep)\<close> for a one-character separator: never an empty list.\<close>

fun split_on :: "char \<Rightarrow> string \<Rightarrow> string list" where
  "split_on sep [] = [[]]"
| "split_on sep (c # cs) =
     (if c = sep then [] # split_on sep cs
      else (case split_on sep cs of
              [] \<Rightarrow> [[c]]
            | p # ps \<Rightarrow> (c # p) # ps))"

text \<open>\<^verbatim>\<open>sep.join(parts)\<close>.\<close>

fun join :: "string \<Rightarrow> string list \<Rightarrow> string" where
  "join sep [] = []"
| "join sep [p] = p"
| "join sep (p # q # ps) = p @ sep @ join sep (q # ps)"

text \<open>The decimal digits \<^verbatim>\<open>0\<close> to \<^verbatim>\<open>9\<close>, the only digits that \<^verbatim>\<open>int\<close> reads.\<close>

definition is_digit :: "char \<Rightarrow> bool" where
  "is_digit c = (48 \<le> (of_char c :: nat) \<and> (of_char c :: nat) \<le> 57)"

text \<open>
  \<^verbatim>\<open>str.isdigit\<close> of a character: the decimal digits and the superscripts two, three
  and one (0xB2, 0xB3, 0xB9). \<^verbatim>\<open>s.isdigit()\<close> is false on the empty text.
\<close>

definition is_digit_class :: "char \<Rightarrow> bool" where
  "is_digit_class c =
     (is_digit c \<or> (of_char c :: nat) = 178 \<or> (of_char c :: nat) = 179 \<or> (of_char c :: nat) = 185)"

definition isdigit :: "string \<Rightarrow> bool" where
  "isdigit s = (s \<noteq> [] \<and> list_all is_digit_class s)"

definition digit_val :: "char \<Rightarrow> int" where
  "digit_val c = int (of_char c) - 48"

text \<open>
  \<^verbatim>\<open>int(s)\<close> in base 10: surrounding whitespace is ignored, one sign is allowed, and
  the digits may be grouped by single underscores (\<^verbatim>\<open>int("1_0") == 10\<close>). Anything
  else raises \<^verbatim>\<open>ValueError\<close>, and so does a text with more than 4300 digits (the
  interpreter's default limit). The whitespace that \<^verbatim>\<open>int\<close> ignores is tab, LF, VT,
  FF, CR, space, NEL and the no-break space: the separators 0x1C..0x1F, which
  \<^verbatim>\<open>strip\<close> removes, make \<^verbatim>\<open>int\<close> fail.
\<close>

definition is_int_space :: "char \<Rightarrow> bool" where
  "is_int_space c =
     (let n = (of_char c :: nat) in (9 \<le> n \<and> n \<le> 13) \<or> n = 32 \<or> n = 133 \<or> n = 160)"

definition int_strip :: "string \<Rightarrow> string" where
  "int_strip s = rev (dropWhile is_int_space (rev (dropWhile is_int_space s)))"

fun int_digits_rest :: "int \<Rightarrow> string \<Rightarrow> error + int" where
  "int_digits_rest acc [] = Inr acc"
| "int_digits_rest acc (c # cs) =
     (if is_digit c then int_digits_rest (acc * 10 + digit_val c) cs
      else if c = CHR ''_'' then
        (case cs of
           [] \<Rightarrow> Inl ValueError
         | d # ds \<Rightarrow>
             if is_digit d then int_digits_rest (acc * 10 + digit_val d) ds
             else Inl ValueError)
      else Inl ValueError)"

definition int_digits :: "string \<Rightarrow> error + int" where
  "int_digits s =
     (if 4300 < length (filter is_digit s) then Inl ValueError
      else
        (case s of
           [] \<Rightarrow> Inl ValueError
         | c # cs \<Rightarrow> if is_digit c then int_digits_rest (digit_val c) cs else Inl ValueError))"

definition py_int :: "string \<Rightarrow> error + int" where
  "py_int s =
     (case int_strip s of
        [] \<Rightarrow> Inl ValueError
      | c # cs \<Rightarrow>
          if c = CHR ''-'' then
            (case int_digits cs of Inl e \<Rightarrow> Inl e | Inr v \<Rightarrow> Inr (- v))
          else if c = CHR ''+'' then int_digits cs
          else int_digits (c # cs))"

text \<open>Decimal digits of a natural number, as \<^verbatim>\<open>str\<close> prints them.\<close>

definition digit_char :: "nat \<Rightarrow> char" where
  "digit_char d = ''0123456789'' ! d"

fun dec_digits :: "nat \<Rightarrow> string" where
  "dec_digits n =
     (if n < 10 then [digit_char n] else dec_digits (n div 10) @ [digit_char (n mod 10)])"

text \<open>
  The format specification \<^verbatim>\<open>{n:02d}\<close>: decimal, zero-padded to width 2, the sign
  first and counted in the width.
\<close>

definition fmt_02d :: "int \<Rightarrow> string" where
  "fmt_02d n =
     (if n < 0 then
        (let ds = dec_digits (nat (- n))
         in CHR ''-'' # replicate (1 - length ds) CHR ''0'' @ ds)
      else
        (let ds = dec_digits (nat n)
         in replicate (2 - length ds) CHR ''0'' @ ds))"

section \<open>Time\<close>

text \<open>
  \<^verbatim>\<open>
  def time_to_minutes(t):
      h, m = t.split(":")
      return int(h) * 60 + int(m)
  \<close>
  The unpacking raises \<^verbatim>\<open>ValueError\<close> unless the split has exactly two parts.
\<close>

definition time_to_minutes :: "string \<Rightarrow> error + int" where
  "time_to_minutes t =
     (case split_on CHR '':'' t of
        [h, m] \<Rightarrow>
          (case py_int h of
             Inl e \<Rightarrow> Inl e
           | Inr hv \<Rightarrow>
               (case py_int m of
                  Inl e \<Rightarrow> Inl e
                | Inr mv \<Rightarrow> Inr (hv * 60 + mv)))
      | _ \<Rightarrow> Inl ValueError)"

text \<open>
  \<^verbatim>\<open>
  def minutes_to_time(x):
      x = x % (24 * 60)
      h = x // 60
      m = x % 60
      return f"{h:02d}:{m:02d}"
  \<close>
  Python's \<^verbatim>\<open>%\<close> and \<^verbatim>\<open>//\<close> round towards minus infinity, as \<open>mod\<close> and \<open>div\<close> on
  \<open>int\<close> do.
\<close>

definition minutes_to_time :: "int \<Rightarrow> string" where
  "minutes_to_time x0 =
     (let x = x0 mod (24 * 60);
          h = x div 60;
          m = x mod 60
      in fmt_02d h @ '':'' @ fmt_02d m)"

definition overlaps :: "int \<Rightarrow> int \<Rightarrow> int \<Rightarrow> int \<Rightarrow> bool" where
  "overlaps a_start a_end b_start b_end = (a_start < b_end \<and> b_start < a_end)"

text \<open>
  \<^verbatim>\<open>
  def is_time_ok(t):
      t = (t or "").strip()
      if len(t) != 5 or t[2] != ":":
          return False
      hh, mm = t.split(":")
      if not (hh.isdigit() and mm.isdigit()):
          return False
      h = int(hh)
      m = int(mm)
      return 0 <= h <= 23 and 0 <= m <= 59
  \<close>
  The unpacking and the two \<^verbatim>\<open>int\<close> calls can raise, so the result is a sum.
\<close>

definition is_time_ok :: "string \<Rightarrow> error + bool" where
  "is_time_ok t0 =
     (let t = strip t0 in
      if length t \<noteq> 5 \<or> t ! 2 \<noteq> CHR '':'' then Inr False
      else
        (case split_on CHR '':'' t of
           [hh, mm] \<Rightarrow>
             if \<not> (isdigit hh \<and> isdigit mm) then Inr False
             else
               (case py_int hh of
                  Inl e \<Rightarrow> Inl e
                | Inr h \<Rightarrow>
                    (case py_int mm of
                       Inl e \<Rightarrow> Inl e
                     | Inr m \<Rightarrow> Inr (0 \<le> h \<and> h \<le> 23 \<and> 0 \<le> m \<and> m \<le> 59)))
         | _ \<Rightarrow> Inl ValueError))"

text \<open>
  The way a clock text typed into the form reaches the scheduler: the add-event
  handler (lines 645 to 655) shows an error unless \<^verbatim>\<open>is_time_ok\<close> holds, and
  otherwise stores the stripped text; \<^verbatim>\<open>build_event\<close> later applies
  \<^verbatim>\<open>time_to_minutes\<close> to the stored text.
\<close>

definition parse_clock :: "string \<Rightarrow> error + int" where
  "parse_clock t =
     (case is_time_ok t of
        Inl e \<Rightarrow> Inl e
      | Inr ok \<Rightarrow> if ok then time_to_minutes (strip t) else Inl InvalidTimeFormat)"

text \<open>
  The condition that the specification puts on a clock text, in its own words: exactly
  five characters, a colon at index 2, both parts numeric, the hour in 0..23 and the
  minute in 0..59; and the minute of the day that such a text denotes.
\<close>

definition two_digits :: "string \<Rightarrow> int" where
  "two_digits s = 10 * digit_val (s ! 0) + digit_val (s ! 1)"

definition clock_text_ok :: "string \<Rightarrow> bool" where
  "clock_text_ok s =
     (length s = 5 \<and> s ! 2 = CHR '':'' \<and>
      list_all is_digit (take 2 s) \<and> list_all is_digit (drop 3 s) \<and>
      0 \<le> two_digits (take 2 s) \<and> two_digits (take 2 s) \<le> 23 \<and>
      0 \<le> two_digits (drop 3 s) \<and> two_digits (drop 3 s) \<le> 59)"

definition clock_text_minutes :: "string \<Rightarrow> int" where
  "clock_text_minutes s = two_digits (take 2 s) * 60 + two_digits (drop 3 s)"

section \<open>Staffing rules\<close>

text \<open>
  The division \<^verbatim>\<open>a / b\<close> of two Python integers gives the binary64 floating-point
  number nearest to the exact quotient, ties going to the even significand; it raises
  \<^verbatim>\<open>ZeroDivisionError\<close> when \<open>b\<close> is 0 and \<^verbatim>\<open>OverflowError\<close> when the rounded
  quotient would reach \<open>2 ^ 1024\<close>. A binary64 number is a real number here.

  \<open>bit_length\<close> is \<^verbatim>\<open>int.bit_length\<close>. \<open>round_half_even n d\<close> is \<open>n / d\<close> rounded to
  the nearest integer, ties to even. \<open>quot_exponent a b\<close> is the binary exponent of
  \<open>a / b\<close>, the \<open>e\<close> with \<open>2 ^ e \<le> a / b < 2 ^ (e + 1)\<close>. The quotient is rounded to
  a multiple of \<open>2 ^ p\<close>, where \<open>p\<close> is that exponent (at least \<open>- 1022\<close>, below which
  numbers are subnormal) minus the 52 fraction bits.
\<close>

fun bit_length :: "nat \<Rightarrow> nat" where
  "bit_length n = (if n = 0 then 0 else Suc (bit_length (n div 2)))"

declare bit_length.simps [simp del]

definition round_half_even :: "nat \<Rightarrow> nat \<Rightarrow> nat" where
  "round_half_even n d =
     (let q = n div d; r = n mod d
      in if 2 * r < d then q
         else if d < 2 * r then q + 1
         else if even q then q else q + 1)"

definition quot_exponent :: "nat \<Rightarrow> nat \<Rightarrow> int" where
  "quot_exponent a b =
     (if b \<le> a then int (bit_length (a div b)) - 1
      else - int (bit_length ((b - 1) div a)))"

definition binary64_quot :: "nat \<Rightarrow> nat \<Rightarrow> real" where
  "binary64_quot a b =
     (let p = max (quot_exponent a b) (- 1022) - 52
      in if 0 \<le> p then real (round_half_even a (b * 2 ^ nat p)) * 2 ^ nat p
         else real (round_half_even (a * 2 ^ nat (- p)) b) / 2 ^ nat (- p))"

definition py_truediv :: "int \<Rightarrow> int \<Rightarrow> error + real" where
  "py_truediv a b =
     (if b = 0 then Inl ZeroDivisionError
      else if a = 0 then Inr 0
      else
        (let m = binary64_quot (nat \<bar>a\<bar>) (nat \<bar>b\<bar>)
         in if 2 ^ 1024 \<le> m then Inl OverflowError
            else Inr (if (a < 0) = (b < 0) then m else - m)))"

text \<open>
  \<^verbatim>\<open>
  def calc_staff(guests):
      waiters = max(3, math.ceil(guests / 20))
      bartenders = max(1, math.ceil(guests / 60))
      return waiters, bartenders
  \<close>
  \<^verbatim>\<open>math.ceil\<close> of a floating-point number is its exact ceiling, an integer.
\<close>

definition calc_staff :: "int \<Rightarrow> error + int \<times> int" where
  "calc_staff guests =
     (case py_truediv guests 20 of
        Inl e \<Rightarrow> Inl e
      | Inr q20 \<Rightarrow>
          (case py_truediv guests 60 of
             Inl e \<Rightarrow> Inl e
           | Inr q60 \<Rightarrow>
               (let waiters = max 3 \<lceil>q20\<rceil>;
                    bartenders = max 1 \<lceil>q60\<rceil>
                in Inr (waiters, bartenders))))"

definition difficulty_from_guests :: "int \<Rightarrow> int" where
  "difficulty_from_guests guests =
     (if guests \<le> 120 then 2
      else if guests \<le> 250 then 3
      else if guests \<le> 400 then 4
      else 5)"

section \<open>Events\<close>

text \<open>The event dictionary built by \<^verbatim>\<open>build_event\<close>, with its sixteen keys.\<close>

record event =
  day :: string
  hall :: string
  guests :: int
  difficulty :: int
  start_time :: string
  end_time :: string
  arrival_time :: string
  arrival_min :: int
  start_min :: int
  end_min :: int
  waiters :: int
  bartenders :: int
  waiter_names :: "string list"
  bartender_names :: "string list"
  missing_waiters :: int
  missing_bartenders :: int

text \<open>
  \<^verbatim>\<open>
  def build_event(day, hall, guests, start_time, end_time):
      waiters, bartenders = calc_staff(guests)
      start_min = time_to_minutes(start_time)
      end_min = time_to_minutes(end_time)
      if end_min <= start_min:
          end_min += 24 * 60
      arrival_min = start_min - 120
      difficulty = difficulty_from_guests(guests)
      return {...}
  \<close>
  An \<^verbatim>\<open>OverflowError\<close> of \<^verbatim>\<open>calc_staff\<close> or a \<^verbatim>\<open>ValueError\<close> of either
  \<^verbatim>\<open>time_to_minutes\<close> call leaves the function; the staff is computed first, then
  the start text is parsed.
\<close>

definition build_event :: "string \<Rightarrow> string \<Rightarrow> int \<Rightarrow> string \<Rightarrow> string \<Rightarrow> error + event" where
  "build_event d h g st en =
     (case calc_staff g of
        Inl e \<Rightarrow> Inl e
      | Inr (w, b) \<Rightarrow>
          (case time_to_minutes st of
             Inl e \<Rightarrow> Inl e
           | Inr start_m \<Rightarrow>
               (case time_to_minutes en of
                  Inl e \<Rightarrow> Inl e
                | Inr end_m0 \<Rightarrow>
                    (let end_m = (if end_m0 \<le> start_m then end_m0 + 24 * 60 else end_m0);
                         arrival_m = start_m - 120;
                         diff = difficulty_from_guests g
                     in Inr \<lparr> day = d, hall = h, guests = g, difficulty = diff,
                              start_time = st, end_time = en,
                              arrival_time = minutes_to_time arrival_m,
                              arrival_min = arrival_m, start_min = start_m, end_min = end_m,
                              waiters = w, bartenders = b,
                              waiter_names = [], bartender_names = [],
                              missing_waiters = 0, missing_bartenders = 0 \<rparr>))))"

section \<open>Employees and the roster table\<close>

text \<open>
  The employee dictionary as \<^verbatim>\<open>load_employees_from_db\<close> builds it: every key is
  present. (\<open>eid\<close> is the key \<^verbatim>\<open>"id"\<close>.)
\<close>

record employee =
  eid :: nat
  name :: string
  phone :: string
  role :: string
  days :: "string list"
  rank :: int

text \<open>
  The dictionaries handed to \<^verbatim>\<open>save_employees_to_db\<close> are read with \<^verbatim>\<open>e.get\<close>, so
  every key may be absent. The value under \<^verbatim>\<open>"days"\<close> is a list of texts
  (\<open>DaysList\<close>) or another value that Python counts as true, of which only the
  text \<^verbatim>\<open>str(days)\<close> is used (\<open>DaysOther\<close>); a value that counts as false is
  replaced by the empty list, as an absent one is.
\<close>

datatype raw_days = DaysList "string list" | DaysOther string

record raw_employee =
  raw_name :: "string option"
  raw_phone :: "string option"
  raw_role :: "string option"
  raw_days :: "raw_days option"
  raw_rank :: "int option"

text \<open>
  A row of the table \<^verbatim>\<open>employees\<close>, and the table with the counter of its
  \<^verbatim>\<open>AUTOINCREMENT\<close> key (the largest key ever given out).
\<close>

record db_row =
  row_id :: nat
  row_name :: string
  row_phone :: string
  row_role :: string
  row_days :: string
  row_rank :: int

record db =
  rows :: "db_row list"
  seq :: nat

text \<open>\<^verbatim>\<open>x or ""\<close> for an optional text: absent and empty both give the empty text.\<close>

definition or_empty :: "string option \<Rightarrow> string" where
  "or_empty x = (case x of None \<Rightarrow> [] | Some s \<Rightarrow> s)"

text \<open>\<^verbatim>\<open>int(e.get("rank") or 1)\<close>: an absent rank and the rank 0 both give 1.\<close>

definition record_rank :: "raw_employee \<Rightarrow> int" where
  "record_rank e = (case raw_rank e of None \<Rightarrow> 1 | Some r \<Rightarrow> if r = 0 then 1 else r)"

text \<open>
  One turn of the loop of \<^verbatim>\<open>save_employees_to_db\<close> (lines 75 to 95):
  \<^verbatim>\<open>
      name = (e.get("name") or "").strip()
      phone = (e.get("phone") or "").strip()
      role = (e.get("role") or "").strip()
      days = e.get("days") or []
      if isinstance(days, list):
          days_str = ",".join([d.strip() for d in days if d.strip()])
      else:
          days_str = str(days)
      rank = int(e.get("rank") or 1)
      if not name:
          continue
      if role not in ("waiter", "bartender"):
          continue
      cur.execute("INSERT INTO employees(...) VALUES(?,?,?,?,?)", ...)
  \<close>
  The \<^verbatim>\<open>INSERT\<close> raises \<^verbatim>\<open>OverflowError\<close> when the rank does not fit a signed
  64-bit integer, and \<^verbatim>\<open>OperationalError\<close> when the largest key, \<open>2 ^ 63 - 1\<close>, has
  been given out. An exception leaves the function before \<^verbatim>\<open>conn.commit()\<close>.
\<close>

definition save_one :: "db \<Rightarrow> raw_employee \<Rightarrow> error + db" where
  "save_one d e =
     (let nm = strip (or_empty (raw_name e));
          ph = strip (or_empty (raw_phone e));
          rl = strip (or_empty (raw_role e));
          days_str =
            (case raw_days e of
               None \<Rightarrow> join '','' []
             | Some (DaysList ds) \<Rightarrow>
                 join '','' (map strip (filter (\<lambda>x. strip x \<noteq> []) ds))
             | Some (DaysOther s) \<Rightarrow> s);
          rk = record_rank e
      in if nm = [] then Inr d
         else if rl \<noteq> ''waiter'' \<and> rl \<noteq> ''bartender'' then Inr d
         else if rk < - (2 ^ 63) \<or> 2 ^ 63 \<le> rk then Inl OverflowError
         else if 2 ^ 63 - 1 \<le> seq d then Inl OperationalError
         else Inr \<lparr> rows = rows d @
                    [\<lparr> row_id = seq d + 1, row_name = nm, row_phone = ph, row_role = rl,
                       row_days = days_str, row_rank = rk \<rparr>],
                 seq = seq d + 1 \<rparr>)"

text \<open>\<^verbatim>\<open>DELETE FROM employees\<close>, then the loop, which the first exception ends.\<close>

fun save_loop :: "db \<Rightarrow> raw_employee list \<Rightarrow> error + db" where
  "save_loop d [] = Inr d"
| "save_loop d (e # es) =
     (case save_one d e of
        Inl err \<Rightarrow> Inl err
      | Inr d' \<Rightarrow> save_loop d' es)"

definition save_employees_to_db :: "db \<Rightarrow> raw_employee list \<Rightarrow> error + db" where
  "save_employees_to_db d es = save_loop (d\<lparr> rows := [] \<rparr>) es"

text \<open>
  \<^verbatim>\<open>
  def load_employees_from_db():
      cur.execute("SELECT id, name, phone, role, days, rank FROM employees ORDER BY role, name")
      for (eid, name, phone, role, days, rank) in rows:
          days_list = [d.strip() for d in (days or "").split(",") if d.strip()]
          employees.append({...})
  \<close>
  The rows come ordered by role, then name, compared byte by byte. Rows equal in both
  keep their table order here; SQLite leaves the order of such rows open.
\<close>

definition load_employees_from_db :: "db \<Rightarrow> employee list" where
  "load_employees_from_db d =
     map (\<lambda>r. \<lparr> eid = row_id r, name = row_name r, phone = row_phone r, role = row_role r,
                days = map strip (filter (\<lambda>x. strip x \<noteq> []) (split_on CHR '','' (row_days r))),
                rank = row_rank r \<rparr>)
         (sort_key (\<lambda>r. (row_role r, row_name r)) (rows d))"

section \<open>Assignment\<close>

text \<open>
  The two dictionaries of a run: \<^verbatim>\<open>assigned\<close> counts the shifts of each name,
  \<^verbatim>\<open>schedule\<close> lists the busy intervals \<open>(day, start, end)\<close> of each name.
\<close>

type_synonym interval = "string \<times> int \<times> int"
type_synonym assigned = "string \<rightharpoonup> int"
type_synonym schedule = "string \<rightharpoonup> interval list"

text \<open>\<^verbatim>\<open>assigned.get(name, 0)\<close> and \<^verbatim>\<open>schedule.get(name, [])\<close>.\<close>

definition load_of :: "assigned \<Rightarrow> string \<Rightarrow> int" where
  "load_of a n = (case a n of None \<Rightarrow> 0 | Some k \<Rightarrow> k)"

definition busy_of :: "schedule \<Rightarrow> string \<Rightarrow> interval list" where
  "busy_of sch n = (case sch n of None \<Rightarrow> [] | Some l \<Rightarrow> l)"

text \<open>
  \<^verbatim>\<open>
  def can_assign(name, event, schedule):
      for d, s, e in schedule.get(name, []):
          if d == event["day"] and overlaps(s, e, event["arrival_min"], event["end_min"]):
              return False
      return True
  \<close>
\<close>

fun can_assign_loop :: "interval list \<Rightarrow> event \<Rightarrow> bool" where
  "can_assign_loop [] ev = True"
| "can_assign_loop ((d, s, e) # rest) ev =
     (if d = day ev \<and> overlaps s e (arrival_min ev) (end_min ev) then False
      else can_assign_loop rest ev)"

definition can_assign :: "string \<Rightarrow> event \<Rightarrow> schedule \<Rightarrow> bool" where
  "can_assign n ev sch = can_assign_loop (busy_of sch n) ev"

text \<open>
  The sort key of \<^verbatim>\<open>assign_event\<close> (lines 213 to 216): a pair, compared
  lexicographically as Python compares tuples.
\<close>

definition sort_key_of :: "int \<Rightarrow> assigned \<Rightarrow> employee \<Rightarrow> int \<times> int" where
  "sort_key_of diff a e =
     (if diff \<ge> 4 then (load_of a (name e), rank e) else (load_of a (name e), - rank e))"

text \<open>
  The selection loop (lines 223 to 227, and 229 to 233 for bartenders):
  \<^verbatim>\<open>
      for e in waiters:
          if len(chosen_w) == event["waiters"]:
              break
          if can_assign(e["name"], event, schedule):
              chosen_w.append(e)
  \<close>
\<close>

fun choose_loop :: "event \<Rightarrow> schedule \<Rightarrow> int \<Rightarrow> employee list \<Rightarrow> employee list \<Rightarrow> employee list" where
  "choose_loop ev sch need chosen [] = chosen"
| "choose_loop ev sch need chosen (e # es) =
     (if int (length chosen) = need then chosen
      else if can_assign (name e) ev sch then choose_loop ev sch need (chosen @ [e]) es
      else choose_loop ev sch need chosen es)"

text \<open>
  One turn of the commit loop (lines 235 to 237):
  \<^verbatim>\<open>
      assigned[e["name"]] = assigned.get(e["name"], 0) + 1
      schedule.setdefault(e["name"], []).append((day, event["arrival_min"], event["end_min"]))
  \<close>
\<close>

definition commit :: "event \<Rightarrow> employee \<Rightarrow> assigned \<times> schedule \<Rightarrow> assigned \<times> schedule" where
  "commit ev e st =
     (case st of
        (a, sch) \<Rightarrow>
          (a(name e \<mapsto> load_of a (name e) + 1),
           sch(name e \<mapsto> busy_of sch (name e) @ [(day ev, arrival_min ev, end_min ev)])))"

text \<open>The candidate lists of lines 208 to 219, filtered and sorted.\<close>

definition available :: "event \<Rightarrow> employee list \<Rightarrow> employee list" where
  "available ev employees = filter (\<lambda>e. day ev \<in> set (days e)) employees"

definition sorted_pool :: "string \<Rightarrow> event \<Rightarrow> employee list \<Rightarrow> assigned \<Rightarrow> employee list" where
  "sorted_pool r ev employees a =
     sort_key (sort_key_of (difficulty ev) a)
       (filter (\<lambda>e. role e = r) (available ev employees))"

definition chosen_w :: "event \<Rightarrow> employee list \<Rightarrow> assigned \<Rightarrow> schedule \<Rightarrow> employee list" where
  "chosen_w ev employees a sch =
     choose_loop ev sch (waiters ev) [] (sorted_pool ''waiter'' ev employees a)"

definition chosen_b :: "event \<Rightarrow> employee list \<Rightarrow> assigned \<Rightarrow> schedule \<Rightarrow> employee list" where
  "chosen_b ev employees a sch =
     choose_loop ev sch (bartenders ev) [] (sorted_pool ''bartender'' ev employees a)"

text \<open>
  \<^verbatim>\<open>assign_event(event, employees, assigned, schedule)\<close> mutates the event and the
  two dictionaries; the model returns the three of them.
\<close>

definition assign_event ::
  "event \<Rightarrow> employee list \<Rightarrow> assigned \<Rightarrow> schedule \<Rightarrow> event \<times> assigned \<times> schedule" where
  "assign_event ev employees a sch =
     (let cw = chosen_w ev employees a sch;
          cb = chosen_b ev employees a sch;
          (a', sch') = fold (commit ev) (cw @ cb) (a, sch)
      in (ev\<lparr> waiter_names := map name cw,
              bartender_names := map name cb,
              missing_waiters := max 0 (waiters ev - int (length cw)),
              missing_bartenders := max 0 (bartenders ev - int (length cb)) \<rparr>,
          a', sch'))"

text \<open>
  The run of lines 683 to 686: both dictionaries start empty and the events are
  assigned in list order.
  \<^verbatim>\<open>
      assigned = {}
      schedule = {}
      for ev in week:
          assign_event(ev, employees, assigned, schedule)
  \<close>
\<close>

fun assign_all ::
  "event list \<Rightarrow> employee list \<Rightarrow> assigned \<Rightarrow> schedule \<Rightarrow> event list \<times> assigned \<times> schedule" where
  "assign_all [] employees a sch = ([], a, sch)"
| "assign_all (ev # evs) employees a sch =
     (case assign_event ev employees a sch of
        (ev', a', sch') \<Rightarrow>
          (case assign_all evs employees a' sch' of
             (evs', a'', sch'') \<Rightarrow> (ev' # evs', a'', sch'')))"

definition run_week :: "event list \<Rightarrow> employee list \<Rightarrow> event list \<times> assigned \<times> schedule" where
  "run_week week employees = assign_all week employees Map.empty Map.empty"

text \<open>
  Two busy intervals clash when they lie on the same day and overlap under the
  half-open test; a list of intervals is free of clashes when no two of its entries
  clash.
\<close>

definition clash :: "interval \<Rightarrow> interval \<Rightarrow> bool" where
  "clash x y =
     (case x of (d, s, e) \<Rightarrow> (case y of (d', s', e') \<Rightarrow> d = d' \<and> overlaps s e s' e'))"

fun pairwise_free :: "interval list \<Rightarrow> bool" where
  "pairwise_free [] = True"
| "pairwise_free (x # xs) = (list_all (\<lambda>y. \<not> clash x y) xs \<and> pairwise_free xs)"

text \<open>
  A record handed to \<^verbatim>\<open>save_employees_to_db\<close> is well formed when it has a name
  that is not blank and a role in the closed set.
\<close>

definition well_formed_record :: "raw_employee \<Rightarrow> bool" where
  "well_formed_record e =
     (strip (or_empty (raw_name e)) \<noteq> [] \<and>
      (strip (or_empty (raw_role e)) = ''waiter'' \<or> strip (or_empty (raw_role e)) = ''bartender''))"

section \<open>Sample data\<close>

text \<open>
  Events as \<^verbatim>\<open>build_event\<close> returns them, all on the day \<^verbatim>\<open>"d"\<close> in hall
  \<^verbatim>\<open>"A"\<close>: a small one (60 guests, difficulty 2) from 10:00 to 12:00, a second
  small one from 14:00 to 16:00, whose arrival at 12:00 touches the end of the first,
  a third from 13:00 to 15:00, whose arrival at 11:00 falls into the first, and a
  large one (450 guests, difficulty 5) from 10:00 to 12:00.
\<close>

definition easy_event :: event where
  "easy_event =
     \<lparr> day = ''d'', hall = ''A'', guests = 60, difficulty = 2,
       start_time = ''10:00'', end_time = ''12:00'', arrival_time = ''08:00'',
       arrival_min = 480, start_min = 600, end_min = 720,
       waiters = 3, bartenders = 1,
       waiter_names = [], bartender_names = [],
       missing_waiters = 0, missing_bartenders = 0 \<rparr>"

definition later_event :: event where
  "later_event =
     \<lparr> day = ''d'', hall = ''A'', guests = 60, difficulty = 2,
       start_time = ''14:00'', end_time = ''16:00'', arrival_time = ''12:00'',
       arrival_min = 720, start_min = 840, end_min = 960,
       waiters = 3, bartenders = 1,
       waiter_names = [], bartender_names = [],
       missing_waiters = 0, missing_bartenders = 0 \<rparr>"

definition clashing_event :: event where
  "clashing_event =
     \<lparr> day = ''d'', hall = ''A'', guests = 60, difficulty = 2,
       start_time = ''13:00'', end_time = ''15:00'', arrival_time = ''11:00'',
       arrival_min = 660, start_min = 780, end_min = 900,
       waiters = 3, bartenders = 1,
       waiter_names = [], bartender_names = [],
       missing_waiters = 0, missing_bartenders = 0 \<rparr>"

definition hard_event :: event where
  "hard_event =
     \<lparr> day = ''d'', hall = ''A'', guests = 450, difficulty = 5,
       start_time = ''10:00'', end_time = ''12:00'', arrival_time = ''08:00'',
       arrival_min = 480, start_min = 600, end_min = 720,
       waiters = 23, bartenders = 8,
       waiter_names = [], bartender_names = [],
       missing_waiters = 0, missing_bartenders = 0 \<rparr>"

text \<open>
  Employees available on that day: a waiter of rank 1, a waiter of rank 5 and a
  bartender of rank 2.
\<close>

definition senior_waiter :: employee where
  "senior_waiter = \<lparr> eid = 1, name = ''senior'', phone = ''972500000001'', role = ''waiter'',
     days = [''d''], rank = 1 \<rparr>"

definition junior_waiter :: employee where
  "junior_waiter = \<lparr> eid = 2, name = ''junior'', phone = ''972500000002'', role = ''waiter'',
     days = [''d''], rank = 5 \<rparr>"

definition barman :: employee where
  "barman = \<lparr> eid = 3, name = ''barman'', phone = ''972500000003'', role = ''bartender'',
     days = [''d''], rank = 2 \<rparr>"

text \<open>A roster entry with an empty name, as no loaded roster contains one.\<close>

definition nameless_waiter :: employee where
  "nameless_waiter = \<lparr> eid = 4, name = [], phone = ''972500000004'', role = ''waiter'',
     days = [''d''], rank = 3 \<rparr>"

text \<open>
  Records as the roster editor may hand them to \<^verbatim>\<open>save_employees_to_db\<close>: a
  well-formed waiter, a record with a role outside the closed set, a record
  without a name, and a well-formed bartender.
\<close>

definition raw_waiter :: raw_employee where
  "raw_waiter = \<lparr> raw_name = Some '' senior '', raw_phone = Some ''972500000001'',
     raw_role = Some ''waiter'', raw_days = Some (DaysList [''d'', '' e '']), raw_rank = Some 1 \<rparr>"

definition raw_cook :: raw_employee where
  "raw_cook = \<lparr> raw_name = Some ''cook'', raw_phone = Some ''972500000004'',
     raw_role = Some ''chef'', raw_days = Some (DaysList [''d'']), raw_rank = Some 2 \<rparr>"

definition raw_nameless :: raw_employee where
  "raw_nameless = \<lparr> raw_name = None, raw_phone = Some ''972500000005'',
     raw_role = Some ''waiter'', raw_days = Some (DaysList [''d'']), raw_rank = Some 3 \<rparr>"

definition raw_barman :: raw_employee where
  "raw_barman = \<lparr> raw_name = Some ''barman'', raw_phone = Some ''972500000003'',
     raw_role = Some '' bartender '', raw_days = Some (DaysList [''d'']), raw_rank = Some 2 \<rparr>"

definition empty_db :: db where
  "empty_db = \<lparr> rows = [], seq = 0 \<rparr>"

section \<open>Clock texts\<close>

subsection \<open>Digits, stripping and splitting\<close>

lemma digit_char_cases:
  "d < 10 \<Longrightarrow> d = 0 \<or> d = 1 \<or> d = 2 \<or> d = 3 \<or> d = 4 \<or> d = 5 \<or> d = 6 \<or> d = 7 \<or> d = 8 \<or> d = (9::nat)"
  by arith

lemma is_digit_digit_char: "d < 10 \<Longrightarrow> is_digit (digit_char d)"
  using digit_char_cases [of d] by (auto simp add: is_digit_def digit_char_def)

lemma digit_val_digit_char: "d < 10 \<Longrightarrow> digit_val (digit_char d) = int d"
  using digit_char_cases [of d] by (auto simp add: digit_val_def digit_char_def)

lemma digit_char_not_special:
  "d < 10 \<Longrightarrow> digit_char d \<noteq> CHR '':'' \<and> digit_char d \<noteq> CHR ''-'' \<and>
     digit_char d \<noteq> CHR ''+'' \<and> digit_char d \<noteq> CHR ''_'' \<and> \<not> is_space (digit_char d)"
  using digit_char_cases [of d] by (auto simp add: is_space_def digit_char_def)

lemma is_digit_not_int_space: "is_digit c \<Longrightarrow> \<not> is_int_space c"
  by (auto simp add: is_digit_def is_int_space_def)

lemma is_digit_not_special:
  "is_digit c \<Longrightarrow> c \<noteq> CHR '':'' \<and> c \<noteq> CHR ''-'' \<and> c \<noteq> CHR ''+'' \<and> c \<noteq> CHR ''_'' \<and> \<not> is_space c"
  by (auto simp add: is_digit_def is_space_def)

lemma strip_no_space:
  "\<not> is_space c \<Longrightarrow> \<not> is_space d \<Longrightarrow> strip (c # cs @ [d]) = c # cs @ [d]"
  by (simp add: strip_def)

lemma int_strip_two:
  "\<not> is_int_space c \<Longrightarrow> \<not> is_int_space d \<Longrightarrow> int_strip [c, d] = [c, d]"
  by (simp add: int_strip_def)

lemma py_int_two_digits:
  "is_digit c \<Longrightarrow> is_digit d \<Longrightarrow> py_int [c, d] = Inr (10 * digit_val c + digit_val d)"
  using is_digit_not_special [of c] is_digit_not_special [of d]
    is_digit_not_int_space [of c] is_digit_not_int_space [of d]
  by (simp add: py_int_def int_strip_two int_digits_def)

lemma dec_digits_small: "n < 10 \<Longrightarrow> dec_digits n = [digit_char n]"
  by simp

lemma dec_digits_two: "10 \<le> n \<Longrightarrow> n < 100 \<Longrightarrow> dec_digits n = [digit_char (n div 10), digit_char (n mod 10)]"
  by (subst dec_digits.simps) (simp add: dec_digits_small)

lemma fmt_02d_two:
  assumes "0 \<le> n" "n < 100"
  shows "fmt_02d n = [digit_char (nat n div 10), digit_char (nat n mod 10)]"
proof (cases "nat n < 10")
  case True
  then have "dec_digits (nat n) = [digit_char (nat n)]" by (rule dec_digits_small)
  moreover have "digit_char 0 = CHR ''0''" by (simp add: digit_char_def)
  ultimately show ?thesis using assms True by (simp add: fmt_02d_def)
next
  case False
  then have "dec_digits (nat n) = [digit_char (nat n div 10), digit_char (nat n mod 10)]"
    using assms by (intro dec_digits_two) auto
  then show ?thesis using assms by (simp add: fmt_02d_def)
qed

lemma split_on_no_sep: "sep \<notin> set s \<Longrightarrow> split_on sep s = [s]"
  by (induction s) auto

lemma split_on_one_sep:
  "sep \<notin> set a \<Longrightarrow> sep \<notin> set b \<Longrightarrow> split_on sep (a @ sep # b) = [a, b]"
  by (induction a) (auto simp add: split_on_no_sep)


lemma length_five: "length s = 5 \<Longrightarrow> \<exists>a b c d e. s = [a, b, c, d, e]"
  by (auto simp add: eval_nat_numeral length_Suc_conv)

lemma time_to_minutes_five:
  "is_digit a \<Longrightarrow> is_digit b \<Longrightarrow> is_digit d \<Longrightarrow> is_digit e \<Longrightarrow>
   time_to_minutes [a, b, CHR '':'', d, e] =
     Inr ((10 * digit_val a + digit_val b) * 60 + (10 * digit_val d + digit_val e))"
  using is_digit_not_special [of a] is_digit_not_special [of b]
    is_digit_not_special [of d] is_digit_not_special [of e]
    split_on_one_sep [of "CHR '':''" "[a, b]" "[d, e]"]
  by (simp add: time_to_minutes_def py_int_two_digits)

lemma is_digit_class_not_special:
  "is_digit_class c \<Longrightarrow>
     c \<noteq> CHR '':'' \<and> c \<noteq> CHR ''-'' \<and> c \<noteq> CHR ''+'' \<and> c \<noteq> CHR ''_'' \<and> \<not> is_int_space c"
  by (auto simp add: is_digit_class_def is_digit_def is_int_space_def)

lemma py_int_two_not_digits:
  assumes "is_digit_class c" "is_digit_class d" "\<not> (is_digit c \<and> is_digit d)"
  shows "py_int [c, d] = Inl ValueError"
  using is_digit_class_not_special [OF assms(1)] is_digit_class_not_special [OF assms(2)] assms(3)
  by (auto simp add: py_int_def int_strip_two int_digits_def)

lemma ascii_digit_class: "(of_char c :: nat) < 128 \<Longrightarrow> is_digit_class c = is_digit c"
  by (auto simp add: is_digit_class_def)

lemma is_time_ok_shape:
  assumes "strip t = [a, b, CHR '':'', d, e]"
  shows "is_time_ok t =
     (if a = CHR '':'' \<or> b = CHR '':'' \<or> d = CHR '':'' \<or> e = CHR '':'' then Inl ValueError
      else if is_digit a \<and> is_digit b \<and> is_digit d \<and> is_digit e
        then Inr (10 * digit_val a + digit_val b \<le> 23 \<and> 10 * digit_val d + digit_val e \<le> 59)
      else if is_digit_class a \<and> is_digit_class b \<and> is_digit_class d \<and> is_digit_class e
        then Inl ValueError
      else Inr False)"
proof (cases "a = CHR '':'' \<or> b = CHR '':'' \<or> d = CHR '':'' \<or> e = CHR '':''")
  case True
  then show ?thesis by (auto simp add: is_time_ok_def assms)
next
  case False
  then have sp: "split_on CHR '':'' [a, b, CHR '':'', d, e] = [[a, b], [d, e]]" by simp
  have body: "is_time_ok t =
      (if \<not> (isdigit [a, b] \<and> isdigit [d, e]) then Inr False
       else (case py_int [a, b] of
               Inl x \<Rightarrow> Inl x
             | Inr h \<Rightarrow>
                 (case py_int [d, e] of
                    Inl x \<Rightarrow> Inl x
                  | Inr m \<Rightarrow> Inr (0 \<le> h \<and> h \<le> 23 \<and> 0 \<le> m \<and> m \<le> 59))))"
    using False by (simp add: is_time_ok_def assms)
  show ?thesis
  proof (cases "is_digit_class a \<and> is_digit_class b \<and> is_digit_class d \<and> is_digit_class e")
    case nc: False
    then have "\<not> (is_digit a \<and> is_digit b \<and> is_digit d \<and> is_digit e)"
      by (auto simp add: is_digit_class_def)
    with nc False show ?thesis by (auto simp add: body isdigit_def)
  next
    case cl: True
    show ?thesis
    proof (cases "is_digit a \<and> is_digit b")
      case ab: False
      have "py_int [a, b] = Inl ValueError" using cl ab by (intro py_int_two_not_digits) simp_all
      with cl ab False show ?thesis by (auto simp add: body isdigit_def)
    next
      case ab: True
      show ?thesis
      proof (cases "is_digit d \<and> is_digit e")
        case de: False
        have "py_int [d, e] = Inl ValueError" using cl de by (intro py_int_two_not_digits) simp_all
        with cl ab de False show ?thesis
          by (auto simp add: body isdigit_def py_int_two_digits)
      next
        case de: True
        have "0 \<le> 10 * digit_val a + digit_val b" "0 \<le> 10 * digit_val d + digit_val e"
          using ab de by (simp_all add: digit_val_def is_digit_def)
        with cl ab de False show ?thesis
          by (auto simp add: body isdigit_def py_int_two_digits)
      qed
    qed
  qed
qed

lemma set_strip: "set (strip t) \<subseteq> set t"
proof -
  have "set (strip t) = set (dropWhile is_space (rev (dropWhile is_space t)))"
    by (simp add: strip_def)
  also have "\<dots> \<subseteq> set (rev (dropWhile is_space t))" by (rule set_dropWhileD [THEN subsetI])
  also have "\<dots> \<subseteq> set t" using set_dropWhileD [of _ is_space t] by auto
  finally show ?thesis .
qed

lemma ascii_text_strip: "ascii_text t \<Longrightarrow> ascii_text (strip t)"
  using set_strip [of t] by (auto simp add: ascii_text_def list_all_iff)

lemma is_time_ok_no_shape:
  "length (strip t) \<noteq> 5 \<or> strip t ! 2 \<noteq> CHR '':'' \<Longrightarrow> is_time_ok t = Inr False"
  by (auto simp add: is_time_ok_def)


lemma minutes_to_time_digits:
  "minutes_to_time m =
     [digit_char (nat (m mod 1440 div 60) div 10), digit_char (nat (m mod 1440 div 60) mod 10),
      CHR '':'',
      digit_char (nat (m mod 1440 mod 60) div 10), digit_char (nat (m mod 1440 mod 60) mod 10)]"
proof -
  have h: "0 \<le> m mod 1440 div 60" "m mod 1440 div 60 < 100"
    using pos_mod_bound [of 1440 m] pos_mod_sign [of 1440 m] by simp_all
  have mi: "0 \<le> m mod 1440 mod 60" "m mod 1440 mod 60 < 100"
    using pos_mod_bound [of 60 "m mod 1440"] by simp_all
  show ?thesis
    by (simp add: minutes_to_time_def Let_def fmt_02d_two [OF h] fmt_02d_two [OF mi])
qed

lemma int_div_mod_10: "10 * int (k div 10) + int (k mod 10) = int k"
proof -
  have "int k = int (10 * (k div 10) + k mod 10)" by (simp only: mult_div_mod_eq)
  also have "\<dots> = 10 * int (k div 10) + int (k mod 10)"
    by (simp only: of_nat_add of_nat_mult of_nat_numeral)
  finally show ?thesis by (rule sym)
qed

lemma two_digit_value:
  assumes "0 \<le> n" "n < 100"
  shows "10 * digit_val (digit_char (nat n div 10)) + digit_val (digit_char (nat n mod 10)) = n"
proof -
  have "nat n div 10 < 10" "nat n mod 10 < 10" using assms by simp_all
  then have "10 * digit_val (digit_char (nat n div 10)) + digit_val (digit_char (nat n mod 10))
      = 10 * int (nat n div 10) + int (nat n mod 10)"
    by (simp only: digit_val_digit_char)
  also have "\<dots> = int (nat n)" by (rule int_div_mod_10)
  also have "\<dots> = n" using assms by simp
  finally show ?thesis .
qed

lemma round_trip_time_to_minutes: "time_to_minutes (minutes_to_time m) = Inr (m mod 1440)"
proof -
  let ?h = "m mod 1440 div 60" and ?mi = "m mod 1440 mod 60"
  have h: "0 \<le> ?h" "?h < 24"
    using pos_mod_bound [of 1440 m] pos_mod_sign [of 1440 m] by simp_all
  have mi: "0 \<le> ?mi" "?mi < 60"
    using pos_mod_bound [of 60 "m mod 1440"] by simp_all
  have d: "is_digit (digit_char (nat ?h div 10))" "is_digit (digit_char (nat ?h mod 10))"
      "is_digit (digit_char (nat ?mi div 10))" "is_digit (digit_char (nat ?mi mod 10))"
    using h mi by (simp_all add: is_digit_digit_char)
  have vh: "10 * digit_val (digit_char (nat ?h div 10)) + digit_val (digit_char (nat ?h mod 10)) = ?h"
    using h by (intro two_digit_value) simp_all
  have vm: "10 * digit_val (digit_char (nat ?mi div 10)) + digit_val (digit_char (nat ?mi mod 10)) = ?mi"
    using mi by (intro two_digit_value) simp_all
  have "time_to_minutes (minutes_to_time m) = Inr (?h * 60 + ?mi)"
    unfolding minutes_to_time_digits time_to_minutes_five [OF d] vh vm ..
  also have "?h * 60 + ?mi = m mod 1440" by simp
  finally show ?thesis .
qed


lemma strip_five:
  "is_digit a \<Longrightarrow> is_digit e \<Longrightarrow> strip [a, b, c, d, e] = [a, b, c, d, e]"
  using strip_no_space [of a e "[b, c, d]"] is_digit_not_special [of a] is_digit_not_special [of e]
  by simp

lemma parse_clock_shape:
  assumes "strip t = [a, b, CHR '':'', d, e]"
    and "is_digit a" "is_digit b" "is_digit d" "is_digit e"
  shows "parse_clock t =
     (if 10 * digit_val a + digit_val b \<le> 23 \<and> 10 * digit_val d + digit_val e \<le> 59
      then Inr ((10 * digit_val a + digit_val b) * 60 + (10 * digit_val d + digit_val e))
      else Inl InvalidTimeFormat)"
  using is_digit_not_special [of a] is_digit_not_special [of b]
    is_digit_not_special [of d] is_digit_not_special [of e] assms(2-)
  by (simp add: parse_clock_def is_time_ok_shape [OF assms(1)] assms(1) time_to_minutes_five)

lemma digit_val_nonneg: "is_digit c \<Longrightarrow> 0 \<le> digit_val c"
  by (simp add: is_digit_def digit_val_def)

lemma clock_text_ok_five:
  "clock_text_ok [a, b, c, d, e] =
     (c = CHR '':'' \<and> is_digit a \<and> is_digit b \<and> is_digit d \<and> is_digit e \<and>
      10 * digit_val a + digit_val b \<le> 23 \<and> 10 * digit_val d + digit_val e \<le> 59)"
  using digit_val_nonneg [of a] digit_val_nonneg [of b] digit_val_nonneg [of d] digit_val_nonneg [of e]
  by (auto simp add: clock_text_ok_def two_digits_def)

lemma clock_text_minutes_five:
  "clock_text_minutes [a, b, c, d, e] =
     (10 * digit_val a + digit_val b) * 60 + (10 * digit_val d + digit_val e)"
  by (simp add: clock_text_minutes_def two_digits_def)

lemma parse_clock_cases:
  assumes asc: "ascii_text t"
  shows "parse_clock t =
     (if clock_text_ok (strip t) then Inr (clock_text_minutes (strip t))
      else if length (strip t) = 5 \<and> strip t ! 2 = CHR '':'' \<and> 1 < count_list (strip t) CHR '':''
        then Inl ValueError
      else Inl InvalidTimeFormat)"
proof (cases "length (strip t) = 5 \<and> strip t ! 2 = CHR '':''")
  case False
  then have "is_time_ok t = Inr False" by (intro is_time_ok_no_shape) auto
  moreover have "\<not> clock_text_ok (strip t)" using False by (auto simp add: clock_text_ok_def)
  ultimately show ?thesis using False by (auto simp add: parse_clock_def)
next
  case True
  then obtain a b c d e where s: "strip t = [a, b, c, d, e]"
    using length_five by blast
  with True have c: "c = CHR '':''" by simp
  have s': "strip t = [a, b, CHR '':'', d, e]" using s c by simp
  show ?thesis
  proof (cases "is_digit a \<and> is_digit b \<and> is_digit d \<and> is_digit e")
    case True
    then have n: "a \<noteq> CHR '':''" "b \<noteq> CHR '':''" "d \<noteq> CHR '':''" "e \<noteq> CHR '':''"
      using is_digit_not_special by blast+
    show ?thesis
      using True n
      by (simp add: parse_clock_shape [OF s'] s' clock_text_ok_five clock_text_minutes_five)
  next
    case False
    have "ascii_text [a, b, CHR '':'', d, e]" using ascii_text_strip [OF asc] by (simp only: s')
    then have cls: "is_digit_class a = is_digit a" "is_digit_class b = is_digit b"
        "is_digit_class d = is_digit d" "is_digit_class e = is_digit e"
      by (simp_all add: ascii_text_def ascii_digit_class)
    from False have "\<not> clock_text_ok (strip t)" by (auto simp add: s' clock_text_ok_five)
    then show ?thesis
      using False
      by (auto simp add: parse_clock_def is_time_ok_shape [OF s'] s' cls)
  qed
qed

lemma round_trip_parse_clock: "parse_clock (minutes_to_time m) = Inr (m mod 1440)"
proof -
  let ?h = "m mod 1440 div 60" and ?mi = "m mod 1440 mod 60"
  have h: "0 \<le> ?h" "?h < 24"
    using pos_mod_bound [of 1440 m] pos_mod_sign [of 1440 m] by simp_all
  have mi: "0 \<le> ?mi" "?mi < 60"
    using pos_mod_bound [of 60 "m mod 1440"] by simp_all
  have d: "is_digit (digit_char (nat ?h div 10))" "is_digit (digit_char (nat ?h mod 10))"
      "is_digit (digit_char (nat ?mi div 10))" "is_digit (digit_char (nat ?mi mod 10))"
    using h mi by (simp_all add: is_digit_digit_char)
  have vh: "10 * digit_val (digit_char (nat ?h div 10)) + digit_val (digit_char (nat ?h mod 10)) = ?h"
    using h by (intro two_digit_value) simp_all
  have vm: "10 * digit_val (digit_char (nat ?mi div 10)) + digit_val (digit_char (nat ?mi mod 10)) = ?mi"
    using mi by (intro two_digit_value) simp_all
  have st: "strip (minutes_to_time m) = minutes_to_time m"
    unfolding minutes_to_time_digits using d(1) d(4) by (rule strip_five)
  have "parse_clock (minutes_to_time m) =
      (if ?h \<le> 23 \<and> ?mi \<le> 59 then Inr (?h * 60 + ?mi) else Inl InvalidTimeFormat)"
    using parse_clock_shape [OF st [unfolded minutes_to_time_digits] d]
    unfolding vh vm minutes_to_time_digits .
  also have "\<dots> = Inr (?h * 60 + ?mi)" using h mi by simp
  also have "?h * 60 + ?mi = m mod 1440" by simp
  finally show ?thesis .
qed

lemma strip_clock_text_ok: "clock_text_ok t \<Longrightarrow> strip t = t"
proof -
  assume ok: "clock_text_ok t"
  then have "length t = 5" by (simp add: clock_text_ok_def)
  then obtain a b c d e where t: "t = [a, b, c, d, e]" using length_five by blast
  with ok have "is_digit a" "is_digit e" by (simp_all add: clock_text_ok_five)
  then show ?thesis unfolding t by (rule strip_five)
qed

lemma clock_text_minutes_range:
  "clock_text_ok s \<Longrightarrow> 0 \<le> clock_text_minutes s \<and> clock_text_minutes s < 1440"
  by (simp add: clock_text_ok_def clock_text_minutes_def)

lemma strip_minutes_to_time: "strip (minutes_to_time m) = minutes_to_time m"
proof -
  have "nat (m mod 1440 div 60) div 10 < 10" "nat (m mod 1440 mod 60) mod 10 < 10"
    using pos_mod_bound [of 1440 m] pos_mod_sign [of 1440 m] by simp_all
  then have "is_digit (digit_char (nat (m mod 1440 div 60) div 10))"
      "is_digit (digit_char (nat (m mod 1440 mod 60) mod 10))"
    by (simp_all only: is_digit_digit_char)
  then show ?thesis unfolding minutes_to_time_digits by (rule strip_five)
qed

lemma is_time_ok_second_colon: "is_time_ok ''1::30'' = Inl ValueError"
  by (simp add: is_time_ok_def strip_def is_space_def)

lemma clock_text_ok_minutes_to_time: "clock_text_ok (minutes_to_time m)"
proof -
  let ?h = "m mod 1440 div 60" and ?mi = "m mod 1440 mod 60"
  have h: "0 \<le> ?h" "?h < 24"
    using pos_mod_bound [of 1440 m] pos_mod_sign [of 1440 m] by simp_all
  have mi: "0 \<le> ?mi" "?mi < 60"
    using pos_mod_bound [of 60 "m mod 1440"] by simp_all
  have d: "is_digit (digit_char (nat ?h div 10))" "is_digit (digit_char (nat ?h mod 10))"
      "is_digit (digit_char (nat ?mi div 10))" "is_digit (digit_char (nat ?mi mod 10))"
    using h mi by (simp_all add: is_digit_digit_char)
  have vh: "10 * digit_val (digit_char (nat ?h div 10)) + digit_val (digit_char (nat ?h mod 10)) = ?h"
    using h by (intro two_digit_value) simp_all
  have vm: "10 * digit_val (digit_char (nat ?mi div 10)) + digit_val (digit_char (nat ?mi mod 10)) = ?mi"
    using mi by (intro two_digit_value) simp_all
  have "clock_text_ok (minutes_to_time m) = (?h \<le> 23 \<and> ?mi \<le> 59)"
    unfolding minutes_to_time_digits clock_text_ok_five vh vm using d by simp
  then show ?thesis using h mi by simp
qed

subsection \<open>Formatting and parsing\<close>

text \<open>
  C7: for every integer \<open>m\<close>, negative ones included, parsing the text that
  \<^verbatim>\<open>minutes_to_time\<close> prints for \<open>m\<close> gives \<open>m mod 1440\<close>, both with
  \<^verbatim>\<open>time_to_minutes\<close> alone and through the validated path \<open>parse_clock\<close>;
  \<^verbatim>\<open>minutes_to_time\<close> depends on \<open>m\<close> only through \<open>m mod 1440\<close>, and its text is
  always two digits, a colon and two digits, the hour and the minute zero-padded.
\<close>

theorem clock_round_trip:
  "time_to_minutes (minutes_to_time m) = Inr (m mod 1440) \<and>
   parse_clock (minutes_to_time m) = Inr (m mod 1440) \<and>
   minutes_to_time m = minutes_to_time (m mod 1440) \<and>
   minutes_to_time m =
     [digit_char (nat (m mod 1440 div 60) div 10), digit_char (nat (m mod 1440 div 60) mod 10),
      CHR '':'',
      digit_char (nat (m mod 1440 mod 60) div 10), digit_char (nat (m mod 1440 mod 60) mod 10)] \<and>
   clock_text_ok (minutes_to_time m)"
proof -
  have "minutes_to_time m = minutes_to_time (m mod 1440)"
    by (simp add: minutes_to_time_def)
  then show ?thesis
    using round_trip_time_to_minutes [of m] round_trip_parse_clock [of m]
      minutes_to_time_digits [of m] clock_text_ok_minutes_to_time [of m]
    by simp
qed

text \<open>
  C6, as the code has it: a clock text typed into the form is accepted exactly when, after
  \<^verbatim>\<open>strip()\<close> has removed the surrounding whitespace, it has five characters, a colon
  at index 2, digits elsewhere, an hour of at most 23 and a minute of at most 59; the
  result is then \<open>60 * hour + minute\<close>, a minute of the day. A text that satisfies
  the condition without stripping is accepted. A text that is not accepted is
  rejected by the handler (\<open>InvalidTimeFormat\<close>), unless the stripped text has five
  characters, a colon at index 2 and a second colon. The statement is about texts of
  ASCII characters: beyond them \<^verbatim>\<open>isdigit\<close> accepts digits that \<^verbatim>\<open>int\<close> rejects.
\<close>

theorem parse_clock_accepts_iff:
  "ascii_text t \<Longrightarrow>
     (parse_clock t = Inr v \<longleftrightarrow>
        clock_text_ok (strip t) \<and> v = clock_text_minutes (strip t)) \<and>
     (parse_clock t = Inr v \<longrightarrow> 0 \<le> v \<and> v < 1440) \<and>
     (clock_text_ok t \<longrightarrow> parse_clock t = Inr (clock_text_minutes t)) \<and>
     (\<not> clock_text_ok (strip t) \<and>
      \<not> (length (strip t) = 5 \<and> strip t ! 2 = CHR '':'' \<and> 1 < count_list (strip t) CHR '':'')
        \<longrightarrow> parse_clock t = Inl InvalidTimeFormat)"
proof -
  assume "ascii_text t"
  note c = parse_clock_cases [OF this]
  show ?thesis
    using clock_text_minutes_range [of "strip t"] strip_clock_text_ok [of t]
    by (subst (1 2 3 4) c) auto
qed

theorem parse_clock_accepts_iff_witness:
  "ascii_text '' 12:30'' \<and> parse_clock '' 12:30'' = Inr 750 \<and>
   clock_text_ok (strip '' 12:30'') \<and> clock_text_minutes (strip '' 12:30'') = 750 \<and>
   ascii_text ''24:00'' \<and> \<not> clock_text_ok (strip ''24:00'') \<and>
   parse_clock ''24:00'' = Inl InvalidTimeFormat \<and>
   ascii_text ''07:05'' \<and> clock_text_ok ''07:05'' \<and> parse_clock ''07:05'' = Inr 425"
  using parse_clock_accepts_iff [of "'' 12:30''" 750] parse_clock_accepts_iff [of "''24:00''" 0]
    parse_clock_accepts_iff [of "''07:05''" 425]
  by (simp add: ascii_text_def clock_text_ok_def clock_text_minutes_def two_digits_def
      strip_def is_space_def is_digit_def digit_val_def)

text \<open>
  The text \<^verbatim>\<open>" 12:30"\<close> has six characters and is accepted, with value 750: the
  condition on the text as typed is not necessary for acceptance.
\<close>

theorem parse_clock_padded_counterexample:
  "parse_clock '' 12:30'' = Inr 750 \<and> \<not> clock_text_ok '' 12:30''"
  by (simp add: parse_clock_def is_time_ok_def time_to_minutes_def py_int_def int_digits_def
      isdigit_def clock_text_ok_def strip_def is_space_def int_strip_def is_int_space_def
      is_digit_class_def is_digit_def digit_val_def)

section \<open>Staffing theorems\<close>

subsection \<open>The division of integers\<close>

lemma bit_length_numeral [simp]:
  "bit_length (numeral k) = Suc (bit_length (numeral k div 2))"
  by (subst bit_length.simps) simp

lemma bit_length_0 [simp]: "bit_length 0 = 0" by (simp add: bit_length.simps)
lemma bit_length_1 [simp]: "bit_length 1 = 1" by (simp add: bit_length.simps)
lemma bit_length_Suc_0 [simp]: "bit_length (Suc 0) = 1" by (simp add: bit_length.simps)

lemmas float_defs =
  calc_staff_def py_truediv_def binary64_quot_def quot_exponent_def round_half_even_def Let_def

lemma bit_length_pos: "0 < n \<Longrightarrow> 0 < bit_length n"
  by (subst bit_length.simps) simp

lemma bit_length_upper: "n < 2 ^ bit_length n"
proof (induction n rule: bit_length.induct)
  case (1 n)
  show ?case
  proof (cases "n = 0")
    case True
    then show ?thesis by simp
  next
    case False
    then have "n div 2 < 2 ^ bit_length (n div 2)" by (rule 1)
    then have "n < 2 * 2 ^ bit_length (n div 2)" by linarith
    moreover have "bit_length n = Suc (bit_length (n div 2))"
      using False by (subst bit_length.simps) simp
    ultimately show ?thesis by simp
  qed
qed

lemma bit_length_lower: "0 < n \<Longrightarrow> 2 ^ (bit_length n - 1) \<le> n"
proof (induction n rule: bit_length.induct)
  case (1 n)
  then have n: "n \<noteq> 0" by simp
  have bl: "bit_length n = Suc (bit_length (n div 2))"
    using n by (subst bit_length.simps) simp
  show ?case
  proof (cases "n div 2 = 0")
    case True
    then show ?thesis using 1(2) by (simp add: bl)
  next
    case False
    then have ih: "2 ^ (bit_length (n div 2) - 1) \<le> n div 2" using 1(1) [OF n] by simp
    have "0 < bit_length (n div 2)" using False by (intro bit_length_pos) simp
    then have "(2::nat) ^ bit_length (n div 2) = 2 * 2 ^ (bit_length (n div 2) - 1)"
      by (cases "bit_length (n div 2)") simp_all
    also have "\<dots> \<le> 2 * (n div 2)" using ih by simp
    also have "\<dots> \<le> n" by simp
    finally show ?thesis by (simp add: bl)
  qed
qed

lemma quot_exponent_lower:
  assumes "0 < a" "0 < b"
  shows "2 powi quot_exponent a b \<le> real a / real b"
proof (cases "b \<le> a")
  case True
  let ?m = "a div b"
  have m: "0 < ?m" using True assms by (simp add: div_greater_zero_iff)
  then have bl: "0 < bit_length ?m" by (rule bit_length_pos)
  have "quot_exponent a b = int (bit_length ?m - 1)"
    using True bl by (simp add: quot_exponent_def)
  then have "2 powi quot_exponent a b = (2::real) ^ (bit_length ?m - 1)" by simp
  also have "\<dots> = real (2 ^ (bit_length ?m - 1))" by simp
  also have "\<dots> \<le> real ?m" using bit_length_lower [OF m] by (simp only: of_nat_le_iff)
  also have "\<dots> \<le> real a / real b"
  proof -
    have "?m * b \<le> a" by simp
    then have "real (?m * b) \<le> real a" by (simp only: of_nat_le_iff)
    then show ?thesis using assms by (simp add: le_divide_eq)
  qed
  finally show ?thesis .
next
  case False
  let ?m = "(b - 1) div a"
  let ?n = "bit_length ?m"
  have "?m < 2 ^ ?n" by (rule bit_length_upper)
  then have "?m + 1 \<le> 2 ^ ?n" by simp
  then have "a * (?m + 1) \<le> a * 2 ^ ?n" by (simp only: mult_le_mono2)
  moreover have "b - 1 < a * (?m + 1)"
    using assms(1) by (metis add.commute dividend_less_times_div mult.commute mult_Suc_right Suc_eq_plus1)
  ultimately have "b \<le> a * 2 ^ ?n" by linarith
  then have "real b \<le> real (a * 2 ^ ?n)" by (simp only: of_nat_le_iff)
  then have "real b \<le> real a * 2 ^ ?n" by simp
  then have "1 / 2 ^ ?n \<le> real a / real b"
    using assms by (simp add: field_simps)
  moreover have "2 powi quot_exponent a b = 1 / (2::real) ^ ?n"
    using False by (simp add: quot_exponent_def power_int_minus field_simps)
  ultimately show ?thesis by simp
qed

lemma round_half_even_error:
  assumes "0 < d"
  shows "\<bar>real (round_half_even n d) - real n / real d\<bar> \<le> 1 / 2"
proof -
  let ?q = "n div d" and ?r = "n mod d"
  have n: "real n = real ?q * real d + real ?r"
    by (metis div_mult_mod_eq of_nat_add of_nat_mult)
  have x: "real n / real d = real ?q + real ?r / real d"
    using assms by (simp add: n field_simps)
  have rd: "real ?r < real d" using assms by simp
  consider "2 * ?r < d" | "d < 2 * ?r" | "d = 2 * ?r" by linarith
  then show ?thesis
  proof cases
    case 1
    then have "2 * real ?r < real d" by (metis of_nat_less_iff of_nat_mult of_nat_numeral)
    then have "real ?r / real d \<le> 1 / 2" using assms by (simp add: field_simps)
    moreover have "0 \<le> real ?r / real d" by simp
    moreover have "round_half_even n d = ?q" using 1 by (simp add: round_half_even_def)
    ultimately show ?thesis by (simp add: x)
  next
    case 2
    then have "real d < 2 * real ?r" by (metis of_nat_less_iff of_nat_mult of_nat_numeral)
    then have "1 / 2 \<le> real ?r / real d" using assms by (simp add: field_simps)
    moreover have "real ?r / real d \<le> 1" using rd assms by (simp add: field_simps)
    moreover have "round_half_even n d = ?q + 1" using 2 by (simp add: round_half_even_def)
    ultimately show ?thesis by (simp add: x)
  next
    case 3
    then have "real d = 2 * real ?r" by (metis of_nat_mult of_nat_numeral)
    then have h: "real ?r / real d = 1 / 2" using assms by (simp add: field_simps)
    have "round_half_even n d = ?q \<or> round_half_even n d = ?q + 1"
      using 3 by (simp add: round_half_even_def Let_def)
    then show ?thesis by (auto simp add: x h)
  qed
qed

lemma round_half_even_exact: "0 < d \<Longrightarrow> d dvd n \<Longrightarrow> round_half_even n d = n div d"
  by (simp add: round_half_even_def Let_def)

lemma quot_exponent_le:
  assumes "0 < a" "0 < b" and "real a / real b < 2 powi (k + 1)"
  shows "quot_exponent a b \<le> k"
proof (rule ccontr)
  assume "\<not> quot_exponent a b \<le> k"
  then have "k + 1 \<le> quot_exponent a b" by simp
  then have "(2::real) powi (k + 1) \<le> 2 powi quot_exponent a b"
    by (intro power_int_increasing) simp_all
  also have "\<dots> \<le> real a / real b" using assms(1,2) by (rule quot_exponent_lower)
  finally show False using assms(3) by simp
qed

lemma power_int_halve: "(2::real) powi (p - 1) = 2 powi p / 2"
  by (simp add: power_int_diff)

lemma binary64_quot_error:
  assumes "0 < a" "0 < b"
  shows "\<bar>binary64_quot a b - real a / real b\<bar>
    \<le> 2 powi (max (quot_exponent a b) (- 1022) - 53)"
proof -
  define p where "p = max (quot_exponent a b) (- 1022) - 52"
  have e: "max (quot_exponent a b) (- 1022) - 53 = p - 1" by (simp add: p_def)
  show ?thesis
  proof (cases "0 \<le> p")
    case True
    define k where "k = nat p"
    have v: "binary64_quot a b = real (round_half_even a (b * 2 ^ k)) * 2 ^ k"
      using True by (simp add: binary64_quot_def Let_def p_def [symmetric] k_def)
    have "0 < b * 2 ^ k" using assms by simp
    then have "\<bar>real (round_half_even a (b * 2 ^ k)) - real a / real (b * 2 ^ k)\<bar> \<le> 1 / 2"
      by (rule round_half_even_error)
    then have "\<bar>real (round_half_even a (b * 2 ^ k)) - real a / real (b * 2 ^ k)\<bar> * 2 ^ k
        \<le> 1 / 2 * 2 ^ k"
      by (intro mult_right_mono) simp_all
    moreover have "\<bar>real (round_half_even a (b * 2 ^ k)) - real a / real (b * 2 ^ k)\<bar> * 2 ^ k
        = \<bar>binary64_quot a b - real a / real b\<bar>"
    proof -
      have "\<bar>real (round_half_even a (b * 2 ^ k)) - real a / real (b * 2 ^ k)\<bar> * 2 ^ k
          = \<bar>(real (round_half_even a (b * 2 ^ k)) - real a / real (b * 2 ^ k)) * 2 ^ k\<bar>"
        by (simp add: abs_mult)
      also have "(real (round_half_even a (b * 2 ^ k)) - real a / real (b * 2 ^ k)) * 2 ^ k
          = binary64_quot a b - real a / real b"
        using assms by (simp add: v field_simps)
      finally show ?thesis .
    qed
    moreover have "(2::real) powi (p - 1) = 1 / 2 * 2 ^ k"
    proof -
      have "(2::real) powi p = 2 ^ k" using True by (simp add: k_def power_int_def)
      then show ?thesis by (simp add: power_int_halve)
    qed
    ultimately show ?thesis by (simp only: e)
  next
    case False
    define k where "k = nat (- p)"
    have v: "binary64_quot a b = real (round_half_even (a * 2 ^ k) b) / 2 ^ k"
      using False by (simp add: binary64_quot_def Let_def p_def [symmetric] k_def)
    have "\<bar>real (round_half_even (a * 2 ^ k) b) - real (a * 2 ^ k) / real b\<bar> \<le> 1 / 2"
      using assms(2) by (rule round_half_even_error)
    then have "\<bar>real (round_half_even (a * 2 ^ k) b) - real (a * 2 ^ k) / real b\<bar> / 2 ^ k
        \<le> 1 / 2 / 2 ^ k"
      by (intro divide_right_mono) simp_all
    moreover have "\<bar>real (round_half_even (a * 2 ^ k) b) - real (a * 2 ^ k) / real b\<bar> / 2 ^ k
        = \<bar>binary64_quot a b - real a / real b\<bar>"
    proof -
      have "\<bar>real (round_half_even (a * 2 ^ k) b) - real (a * 2 ^ k) / real b\<bar> / 2 ^ k
          = \<bar>(real (round_half_even (a * 2 ^ k) b) - real (a * 2 ^ k) / real b) / 2 ^ k\<bar>"
        by simp
      also have "(real (round_half_even (a * 2 ^ k) b) - real (a * 2 ^ k) / real b) / 2 ^ k
          = binary64_quot a b - real a / real b"
        using assms by (simp add: v field_simps)
      finally show ?thesis .
    qed
    moreover have "(2::real) powi (p - 1) = 1 / 2 / 2 ^ k"
    proof -
      have "(2::real) powi p = 1 / 2 ^ k"
        using False by (simp add: k_def power_int_def field_simps)
      then show ?thesis by (simp add: power_int_halve)
    qed
    ultimately show ?thesis by (simp only: e)
  qed
qed

lemma binary64_quot_exact:
  assumes "0 < a" "0 < b" "b dvd a" and "real a / real b < 2 ^ 53"
  shows "binary64_quot a b = real a / real b"
proof -
  define p where "p = max (quot_exponent a b) (- 1022) - 52"
  have "real a / real b < 2 powi (52 + 1)" using assms(4) by simp
  then have "quot_exponent a b \<le> 52" using assms(1,2) by (intro quot_exponent_le)
  then have p: "p \<le> 0" by (simp add: p_def)
  show ?thesis
  proof (cases "0 \<le> p")
    case True
    with p have "p = 0" by simp
    then have "binary64_quot a b = real (round_half_even a b)"
      by (simp add: binary64_quot_def Let_def p_def [symmetric])
    also have "\<dots> = real (a div b)" using assms by (simp add: round_half_even_exact)
    also have "\<dots> = real a / real b" using assms(3) by (rule real_of_nat_div)
    finally show ?thesis .
  next
    case False
    define k where "k = nat (- p)"
    have d: "b dvd a * 2 ^ k" using assms(3) by simp
    have "binary64_quot a b = real (round_half_even (a * 2 ^ k) b) / 2 ^ k"
      using False by (simp add: binary64_quot_def Let_def p_def [symmetric] k_def)
    also have "round_half_even (a * 2 ^ k) b = a * 2 ^ k div b"
      using assms(2) d by (rule round_half_even_exact)
    also have "real (a * 2 ^ k div b) = real (a * 2 ^ k) / real b" using d by (rule real_of_nat_div)
    finally show ?thesis by simp
  qed
qed

lemma binary64_quot_relative:
  assumes "0 < a" "0 < b" and "2 powi (- 1022) \<le> real a / real b"
  shows "\<bar>binary64_quot a b - real a / real b\<bar> \<le> real a / real b * 2 powi (- 53)"
proof -
  let ?e = "max (quot_exponent a b) (- 1022)"
  have "(2::real) powi ?e \<le> real a / real b"
    using quot_exponent_lower [OF assms(1,2)] assms(3) by (simp add: max_def)
  then have "(2::real) powi ?e * 2 powi (- 53) \<le> real a / real b * 2 powi (- 53)"
    by (intro mult_right_mono) simp_all
  moreover have "(2::real) powi (?e - 53) = 2 powi ?e * 2 powi (- 53)"
    using power_int_add [of "2::real" ?e "- 53"] by simp
  ultimately show ?thesis
    using binary64_quot_error [OF assms(1,2)] by linarith
qed

lemma ceiling_binary64_quot:
  assumes "0 < a" "0 < b" and "real a / real b < 2 ^ 53"
    and "\<not> b dvd a \<Longrightarrow> 2 powi (max (quot_exponent a b) (- 1022) - 53) < 1 / real b"
  shows "\<lceil>binary64_quot a b\<rceil> = \<lceil>real a / real b\<rceil>"
proof (cases "b dvd a")
  case True
  then show ?thesis using assms(1-3) by (simp add: binary64_quot_exact)
next
  case False
  let ?q = "a div b" and ?r = "a mod b"
  let ?x = "real a / real b" and ?f = "binary64_quot a b"
  have r: "0 < ?r" "?r < b" using False assms(2) by (simp_all add: dvd_eq_mod_eq_0)
  have "real a = real ?q * real b + real ?r"
    by (metis div_mult_mod_eq of_nat_add of_nat_mult)
  then have x: "?x = real ?q + real ?r / real b" using assms(2) by (simp add: field_simps)
  have r1: "1 \<le> real ?r" using r(1) by simp
  have "?r + 1 \<le> b" using r(2) by simp
  then have "real (?r + 1) \<le> real b" by (simp only: of_nat_le_iff)
  then have r2: "real ?r + 1 \<le> real b" by simp
  have lo: "real ?q + 1 / real b \<le> ?x"
    using r1 assms(2) by (simp add: x divide_right_mono)
  have "real ?r / real b \<le> (real b - 1) / real b"
    using r2 assms(2) by (intro divide_right_mono) simp_all
  also have "\<dots> = 1 - 1 / real b" using assms(2) by (simp add: field_simps)
  finally have hi: "?x \<le> real ?q + 1 - 1 / real b" by (simp add: x)
  have pb: "0 < 1 / real b" using assms(2) by simp
  have "\<bar>?f - ?x\<bar> < 1 / real b"
    using binary64_quot_error [OF assms(1,2)] assms(4) [OF False] by linarith
  then have f: "real ?q < ?f" "?f < real ?q + 1" using lo hi by linarith+
  have "\<lceil>?f\<rceil> = int ?q + 1" using f by (intro ceiling_unique) simp_all
  moreover have "real ?q < ?x" "?x \<le> real ?q + 1" using lo hi pb by linarith+
  then have "\<lceil>?x\<rceil> = int ?q + 1" by (intro ceiling_unique) simp_all
  ultimately show ?thesis by simp
qed

subsection \<open>The staff of an event\<close>

lemma py_truediv_pos:
  "0 < g \<Longrightarrow> 0 < b \<Longrightarrow>
   py_truediv g b =
     (if 2 ^ 1024 \<le> binary64_quot (nat g) (nat b) then Inl OverflowError
      else Inr (binary64_quot (nat g) (nat b)))"
  by (simp add: py_truediv_def Let_def)

lemma half_ulp_le:
  assumes "0 < a" "0 < b" and "real a / real b < 2 powi (k + 1)" and "- 1022 \<le> k"
  shows "(2::real) powi (max (quot_exponent a b) (- 1022) - 53) \<le> 2 powi (k - 53)"
proof -
  have "quot_exponent a b \<le> k" using assms(1-3) by (rule quot_exponent_le)
  then have "max (quot_exponent a b) (- 1022) - 53 \<le> k - 53" using assms(4) by simp
  then show ?thesis by (intro power_int_increasing) simp_all
qed

lemma ceiling_truediv_20:
  assumes "1 \<le> g" "g \<le> 20 * 2 ^ 49"
  shows "py_truediv g 20 = Inr (binary64_quot (nat g) 20) \<and>
     \<lceil>binary64_quot (nat g) 20\<rceil> = \<lceil>real_of_int g / 20\<rceil>"
proof -
  let ?a = "nat g"
  have a: "0 < ?a" using assms(1) by simp
  have x: "real ?a / real 20 = real_of_int g / 20" using assms(1) by simp
  have le: "real_of_int g / 20 \<le> 2 ^ 49"
  proof -
    have "real_of_int g \<le> real_of_int (20 * 2 ^ 49)" using assms(2) by (simp only: of_int_le_iff)
    then show ?thesis by simp
  qed
  have c: "\<lceil>binary64_quot ?a 20\<rceil> = \<lceil>real ?a / real 20\<rceil>"
  proof (rule ceiling_binary64_quot [OF a])
    show "0 < (20::nat)" by simp
    show "real ?a / real 20 < 2 ^ 53" using le unfolding x by simp
    assume nd: "\<not> 20 dvd ?a"
    have "g \<noteq> 20 * 2 ^ 49"
    proof
      assume "g = 20 * 2 ^ 49"
      then have "?a = 20 * 2 ^ 49" by simp
      then show False using nd by simp
    qed
    then have "g < 20 * 2 ^ 49" using assms(2) by simp
    then have "real_of_int g < real_of_int (20 * 2 ^ 49)" by (simp only: of_int_less_iff)
    then have "real ?a / real 20 < 2 powi (48 + 1)" unfolding x by simp
    then have "(2::real) powi (max (quot_exponent ?a 20) (- 1022) - 53) \<le> 2 powi (48 - 53)"
      using a by (intro half_ulp_le) simp_all
    also have "(2::real) powi (48 - 53) < 1 / real 20" by simp
    finally show "(2::real) powi (max (quot_exponent ?a 20) (- 1022) - 53) < 1 / real 20" .
  qed
  have "binary64_quot ?a 20 \<le> real_of_int \<lceil>binary64_quot ?a 20\<rceil>" by (rule le_of_int_ceiling)
  also have "\<dots> = real_of_int \<lceil>real_of_int g / 20\<rceil>" using c by (simp only: x)
  also have "\<dots> \<le> real_of_int \<lceil>(2::real) ^ 49\<rceil>"
    using le by (intro of_int_le_iff [THEN iffD2] ceiling_mono)
  also have "\<dots> < 2 ^ 1024" by simp
  finally have "\<not> 2 ^ 1024 \<le> binary64_quot ?a 20" by simp
  then have "py_truediv g 20 = Inr (binary64_quot ?a 20)"
    using assms(1) by (simp add: py_truediv_pos)
  with c show ?thesis by (simp only: x)
qed

lemma ceiling_truediv_60:
  assumes "1 \<le> g" "g \<le> 20 * 2 ^ 49"
  shows "py_truediv g 60 = Inr (binary64_quot (nat g) 60) \<and>
     \<lceil>binary64_quot (nat g) 60\<rceil> = \<lceil>real_of_int g / 60\<rceil>"
proof -
  let ?a = "nat g"
  have a: "0 < ?a" using assms(1) by simp
  have x: "real ?a / real 60 = real_of_int g / 60" using assms(1) by simp
  have lt: "real_of_int g / 60 < 2 ^ 48"
  proof -
    have "real_of_int g \<le> real_of_int (20 * 2 ^ 49)" using assms(2) by (simp only: of_int_le_iff)
    then show ?thesis by simp
  qed
  have c: "\<lceil>binary64_quot ?a 60\<rceil> = \<lceil>real ?a / real 60\<rceil>"
  proof (rule ceiling_binary64_quot [OF a])
    show "0 < (60::nat)" by simp
    show "real ?a / real 60 < 2 ^ 53" using lt unfolding x by simp
    have "real ?a / real 60 < 2 powi (47 + 1)" using lt unfolding x by simp
    then have "(2::real) powi (max (quot_exponent ?a 60) (- 1022) - 53) \<le> 2 powi (47 - 53)"
      using a by (intro half_ulp_le) simp_all
    also have "(2::real) powi (47 - 53) < 1 / real 60" by simp
    finally show "(2::real) powi (max (quot_exponent ?a 60) (- 1022) - 53) < 1 / real 60" .
  qed
  have "binary64_quot ?a 60 \<le> real_of_int \<lceil>binary64_quot ?a 60\<rceil>" by (rule le_of_int_ceiling)
  also have "\<dots> = real_of_int \<lceil>real_of_int g / 60\<rceil>" using c by (simp only: x)
  also have "\<dots> \<le> real_of_int \<lceil>(2::real) ^ 48\<rceil>"
    using lt by (intro of_int_le_iff [THEN iffD2] ceiling_mono) simp
  also have "\<dots> < 2 ^ 1024" by simp
  finally have "\<not> 2 ^ 1024 \<le> binary64_quot ?a 60" by simp
  then have "py_truediv g 60 = Inr (binary64_quot ?a 60)"
    using assms(1) by (simp add: py_truediv_pos)
  with c show ?thesis by (simp only: x)
qed

lemma calc_staff_exact:
  assumes "1 \<le> g" "g \<le> 20 * 2 ^ 49"
  shows "calc_staff g = Inr (max 3 \<lceil>real_of_int g / 20\<rceil>, max 1 \<lceil>real_of_int g / 60\<rceil>)"
  using ceiling_truediv_20 [OF assms] ceiling_truediv_60 [OF assms]
  by (simp add: calc_staff_def)

lemma calc_staff_error: "calc_staff g = Inl e \<Longrightarrow> e = OverflowError"
  by (auto simp add: calc_staff_def py_truediv_def Let_def split: sum.splits if_splits)

lemma calc_staff_minimum: "calc_staff g = Inr (w, b) \<Longrightarrow> 3 \<le> w \<and> 1 \<le> b"
  by (auto simp add: calc_staff_def Let_def split: sum.splits)

lemma eps_half: "(2::real) powi (- 53) \<le> 1 / 2"
  by simp

lemma quot_normal:
  assumes "1 \<le> g" and "b = 20 \<or> b = 60"
  shows "(2::real) powi (- 1022) \<le> real (nat g) / real (nat b)"
proof -
  have "(2::real) powi (- 1022) \<le> 1 / 60" by simp
  also have "(1::real) / 60 \<le> 1 / real (nat b)" using assms(2) by auto
  also have "\<dots> \<le> real (nat g) / real (nat b)"
    using assms by (intro divide_right_mono) auto
  finally show ?thesis .
qed

lemma binary64_quot_bounds:
  assumes "1 \<le> g" and "b = 20 \<or> b = 60"
  shows "real_of_int g / real_of_int b / 2 \<le> binary64_quot (nat g) (nat b)"
    and "binary64_quot (nat g) (nat b) \<le> 2 * (real_of_int g / real_of_int b)"
proof -
  define x where "x = real (nat g) / real (nat b)"
  define f where "f = binary64_quot (nat g) (nat b)"
  have x: "real_of_int g / real_of_int b = x" using assms by (auto simp add: x_def)
  have x0: "0 \<le> x" by (simp add: x_def)
  have "\<bar>f - x\<bar> \<le> x * 2 powi (- 53)"
    unfolding f_def x_def using assms by (intro binary64_quot_relative quot_normal) auto
  also have "\<dots> \<le> x * (1 / 2)" using eps_half x0 by (rule mult_left_mono)
  finally have e: "\<bar>f - x\<bar> \<le> x / 2" by simp
  show "real_of_int g / real_of_int b / 2 \<le> binary64_quot (nat g) (nat b)"
    using e x0 unfolding x f_def [symmetric] by linarith
  show "binary64_quot (nat g) (nat b) \<le> 2 * (real_of_int g / real_of_int b)"
    using e x0 unfolding x f_def [symmetric] by linarith
qed

lemma binary64_quot_order:
  assumes "1 \<le> g"
  shows "binary64_quot (nat g) 60 \<le> binary64_quot (nat g) 20"
proof -
  let ?x = "real (nat g) / real 20" and ?y = "real (nat g) / real 60"
  have xy: "?x = 3 * ?y" by simp
  have y0: "0 \<le> ?y" by simp
  have n20: "(2::real) powi (- 1022) \<le> ?x" using quot_normal [OF assms, of 20] by simp
  have n60: "(2::real) powi (- 1022) \<le> ?y" using quot_normal [OF assms, of 60] by simp
  have a: "0 < nat g" using assms by simp
  have "\<bar>binary64_quot (nat g) 20 - ?x\<bar> \<le> ?x * 2 powi (- 53)"
    using a n20 by (intro binary64_quot_relative) simp_all
  also have "\<dots> \<le> ?x * (1 / 2)" by (intro mult_left_mono eps_half) simp
  finally have e20: "\<bar>binary64_quot (nat g) 20 - ?x\<bar> \<le> ?x / 2" by simp
  have "\<bar>binary64_quot (nat g) 60 - ?y\<bar> \<le> ?y * 2 powi (- 53)"
    using a n60 by (intro binary64_quot_relative) simp_all
  also have "\<dots> \<le> ?y * (1 / 2)" by (intro mult_left_mono eps_half) simp
  finally have e60: "\<bar>binary64_quot (nat g) 60 - ?y\<bar> \<le> ?y / 2" by simp
  show ?thesis using e20 e60 y0 unfolding xy by linarith
qed

lemma calc_staff_order:
  assumes "1 \<le> g" and "calc_staff g = Inr (w, b)"
  shows "b \<le> w"
proof -
  have g: "0 < g" using assms(1) by simp
  from assms(2) have w: "w = max 3 \<lceil>binary64_quot (nat g) 20\<rceil>"
    and b: "b = max 1 \<lceil>binary64_quot (nat g) 60\<rceil>"
    by (auto simp add: calc_staff_def py_truediv_pos [OF g] Let_def split: if_splits)
  define cw cb where "cw = \<lceil>binary64_quot (nat g) 20\<rceil>" and "cb = \<lceil>binary64_quot (nat g) 60\<rceil>"
  have "cb \<le> cw"
    unfolding cw_def cb_def using binary64_quot_order [OF assms(1)] by (rule ceiling_mono)
  then have "max 1 cb \<le> max 3 cw" by linarith
  then show ?thesis unfolding w b cw_def cb_def .
qed

lemma calc_staff_returns:
  assumes "1 \<le> g" and "g < 2 ^ 1024"
  shows "\<exists>w b. calc_staff g = Inr (w, b)"
proof -
  have g: "0 < g" using assms(1) by simp
  have "real_of_int g < real_of_int (2 ^ 1024)" using assms(2) by (simp only: of_int_less_iff)
  then have r: "real_of_int g < 2 ^ 1024" by simp
  have "binary64_quot (nat g) (nat 20) \<le> 2 * (real_of_int g / real_of_int 20)"
    using assms(1) by (intro binary64_quot_bounds) simp_all
  then have f20: "binary64_quot (nat g) 20 < 2 ^ 1024" using r by simp
  have "binary64_quot (nat g) 60 \<le> binary64_quot (nat g) 20"
    using assms(1) by (rule binary64_quot_order)
  then have f60: "binary64_quot (nat g) 60 < 2 ^ 1024" using f20 by simp
  show ?thesis
    using f20 f60 by (simp add: calc_staff_def py_truediv_pos [OF g] Let_def)
qed

lemma calc_staff_overflow:
  assumes "20 * 2 ^ 1025 \<le> g"
  shows "calc_staff g = Inl OverflowError"
proof -
  have g: "0 < g" "1 \<le> g" using assms by simp_all
  have "real_of_int (20 * 2 ^ 1025) \<le> real_of_int g" using assms by (simp only: of_int_le_iff)
  then have r: "20 * 2 ^ 1025 \<le> real_of_int g" by simp
  have "real_of_int g / real_of_int 20 / 2 \<le> binary64_quot (nat g) (nat 20)"
    using g(2) by (intro binary64_quot_bounds) simp_all
  then have "2 ^ 1024 \<le> binary64_quot (nat g) 20" using r by simp
  then show ?thesis by (simp add: calc_staff_def py_truediv_pos [OF g(1)])
qed

lemma ceiling_div_20: "\<lceil>real_of_int g / 20\<rceil> = - ((- g) div 20)"
  using ceiling_divide_eq_div [of g 20] by simp

lemma ceiling_div_60: "\<lceil>real_of_int g / 60\<rceil> = - ((- g) div 60)"
  using ceiling_divide_eq_div [of g 60] by simp

lemma calc_staff_150: "calc_staff 150 = Inr (8, 3)"
  by (simp add: float_defs)

text \<open>
  C3, as the code has it: for every guest count from 1 to \<open>20 * 2 ^ 49\<close>
  (11258999068426240), \<^verbatim>\<open>calc_staff\<close> returns \<open>max 3 \<lceil>guests / 20\<rceil>\<close> waiters and
  \<open>max 1 \<lceil>guests / 60\<rceil>\<close> bartenders, the ceilings being those of the exact quotients
  (in integer arithmetic, \<open>(guests + 19) div 20\<close> and \<open>(guests + 59) div 60\<close>).
  It returns for every positive guest count below \<open>2 ^ 1024\<close>, and whenever it
  returns, for any positive guest count, there are at least 3 waiters and at least 1
  bartender. 150 guests need exactly 8 waiters and 3 bartenders.
\<close>

theorem calc_staff_formula:
  "1 \<le> g \<Longrightarrow>
     (g \<le> 20 * 2 ^ 49 \<longrightarrow>
        calc_staff g = Inr (max 3 \<lceil>real_of_int g / 20\<rceil>, max 1 \<lceil>real_of_int g / 60\<rceil>) \<and>
        calc_staff g = Inr (max 3 ((g + 19) div 20), max 1 ((g + 59) div 60))) \<and>
     (g < 2 ^ 1024 \<longrightarrow> (\<exists>w b. calc_staff g = Inr (w, b))) \<and>
     (\<forall>w b. calc_staff g = Inr (w, b) \<longrightarrow> 3 \<le> w \<and> 1 \<le> b) \<and>
     calc_staff 150 = Inr (8, 3)"
proof -
  assume g: "1 \<le> g"
  have w: "- ((- g) div 20) = (g + 19) div 20" by linarith
  have b: "- ((- g) div 60) = (g + 59) div 60" by linarith
  have 1: "g \<le> 20 * 2 ^ 49 \<longrightarrow>
        calc_staff g = Inr (max 3 \<lceil>real_of_int g / 20\<rceil>, max 1 \<lceil>real_of_int g / 60\<rceil>) \<and>
        calc_staff g = Inr (max 3 ((g + 19) div 20), max 1 ((g + 59) div 60))"
    using calc_staff_exact [OF g] by (simp add: ceiling_div_20 ceiling_div_60 w b)
  have 2: "\<forall>w b. calc_staff g = Inr (w, b) \<longrightarrow> 3 \<le> w \<and> 1 \<le> b"
    using calc_staff_minimum by blast
  have 3: "g < 2 ^ 1024 \<longrightarrow> (\<exists>w b. calc_staff g = Inr (w, b))"
    using calc_staff_returns [OF g] by blast
  from 1 3 2 calc_staff_150 show ?thesis by (intro conjI)
qed

theorem calc_staff_formula_witness:
  "(1::int) \<le> 41 \<and> (41::int) \<le> 20 * 2 ^ 49 \<and> (41::int) < 2 ^ 1024 \<and>
   calc_staff 41 = Inr (3, 1) \<and>
   (1::int) \<le> 61 \<and> (61::int) \<le> 20 * 2 ^ 49 \<and> (61::int) < 2 ^ 1024 \<and>
   calc_staff 61 = Inr (4, 2)"
  using calc_staff_formula [of 41] calc_staff_formula [of 61] by simp

text \<open>
  At \<open>20 * 2 ^ 49 + 1\<close> guests the floating-point quotient is \<open>2 ^ 49\<close>, below the
  exact one, and \<^verbatim>\<open>calc_staff\<close> returns one waiter less than the ceiling of the
  exact quotient. At \<open>20 * 2 ^ 1025\<close> guests the division overflows and nothing is
  returned.
\<close>

theorem calc_staff_float_counterexample:
  "calc_staff 11258999068426241 = Inr (562949953421312, 187649984473771) \<and>
   max 3 \<lceil>real_of_int 11258999068426241 / 20\<rceil> = (562949953421313::int) \<and>
   calc_staff (20 * 2 ^ 1025) = Inl OverflowError"
proof -
  have 1: "calc_staff 11258999068426241 = Inr (562949953421312, 187649984473771)"
    by (simp add: float_defs)
  have 2: "max 3 \<lceil>real_of_int 11258999068426241 / 20\<rceil> = (562949953421313::int)"
    by simp
  have 3: "calc_staff (20 * 2 ^ 1025) = Inl OverflowError"
    by (rule calc_staff_overflow) simp
  from 1 2 3 show ?thesis by (intro conjI)
qed

text \<open>
  C10: for every positive guest count, whenever \<^verbatim>\<open>calc_staff\<close> returns, it asks for at
  least as many waiters as bartenders; and it returns for every positive guest count
  below \<open>2 ^ 1024\<close>.
\<close>

theorem calc_staff_waiters_ge_bartenders:
  "1 \<le> g \<Longrightarrow>
     (\<forall>w b. calc_staff g = Inr (w, b) \<longrightarrow> b \<le> w) \<and>
     (g < 2 ^ 1024 \<longrightarrow> (\<exists>w b. calc_staff g = Inr (w, b)))"
  using calc_staff_order [of g] calc_staff_returns [of g] by blast

theorem calc_staff_waiters_ge_bartenders_witness:
  "(1::int) \<le> 150 \<and> (150::int) < 2 ^ 1024 \<and> calc_staff 150 = Inr (8, 3) \<and> (3::int) \<le> 8"
  using calc_staff_waiters_ge_bartenders [of 150] calc_staff_150 by simp

section \<open>Difficulty tiers\<close>

text \<open>
  C8: \<^verbatim>\<open>difficulty_from_guests\<close> sends every guest count to exactly one of the
  tiers 2, 3, 4, 5: tier 2 exactly up to 120, tier 3 from 121 to 250, tier 4 from 251
  to 400, tier 5 above; it is monotonic non-decreasing; and the six boundary values
  are as documented.
\<close>

theorem difficulty_from_guests_tiers:
  "difficulty_from_guests g \<in> {2, 3, 4, 5} \<and>
   (difficulty_from_guests g = 2 \<longleftrightarrow> g \<le> 120) \<and>
   (difficulty_from_guests g = 3 \<longleftrightarrow> 120 < g \<and> g \<le> 250) \<and>
   (difficulty_from_guests g = 4 \<longleftrightarrow> 250 < g \<and> g \<le> 400) \<and>
   (difficulty_from_guests g = 5 \<longleftrightarrow> 400 < g) \<and>
   (g \<le> g' \<longrightarrow> difficulty_from_guests g \<le> difficulty_from_guests g') \<and>
   difficulty_from_guests 120 = 2 \<and> difficulty_from_guests 121 = 3 \<and>
   difficulty_from_guests 250 = 3 \<and> difficulty_from_guests 251 = 4 \<and>
   difficulty_from_guests 400 = 4 \<and> difficulty_from_guests 401 = 5"
  by (simp add: difficulty_from_guests_def)

theorem difficulty_from_guests_tiers_witness:
  "(130::int) \<le> 300 \<and> difficulty_from_guests 130 = 3 \<and>
   difficulty_from_guests 130 \<le> difficulty_from_guests 300"
  using difficulty_from_guests_tiers [of 130 300] by simp

section \<open>Building an event\<close>

lemma time_to_minutes_clock_text:
  assumes "clock_text_ok t"
  shows "time_to_minutes t = Inr (clock_text_minutes t)"
proof -
  from assms have "length t = 5" by (simp add: clock_text_ok_def)
  then obtain a b c d e where t: "t = [a, b, c, d, e]" using length_five by blast
  from assms have "c = CHR '':''" "is_digit a" "is_digit b" "is_digit d" "is_digit e"
    unfolding t by (simp_all add: clock_text_ok_five)
  then show ?thesis
    unfolding t by (simp add: time_to_minutes_five clock_text_minutes_five)
qed

lemma clock_text_samples:
  "clock_text_ok ''23:30''" "clock_text_minutes ''23:30'' = 1410"
  "clock_text_ok ''01:00''" "clock_text_minutes ''01:00'' = 60"
  "clock_text_ok ''03:00''" "clock_text_minutes ''03:00'' = 180"
  by (simp_all add: clock_text_ok_def clock_text_minutes_def two_digits_def is_digit_def
      digit_val_def)

lemma build_event_result:
  assumes "clock_text_ok st" "clock_text_ok en"
  shows "build_event d h g st en =
     (case calc_staff g of
        Inl e \<Rightarrow> Inl e
      | Inr (w, b) \<Rightarrow>
          Inr \<lparr> day = d, hall = h, guests = g, difficulty = difficulty_from_guests g,
                start_time = st, end_time = en,
                arrival_time = minutes_to_time (clock_text_minutes st - 120),
                arrival_min = clock_text_minutes st - 120,
                start_min = clock_text_minutes st,
                end_min = (if clock_text_minutes en \<le> clock_text_minutes st
                           then clock_text_minutes en + 1440 else clock_text_minutes en),
                waiters = w, bartenders = b,
                waiter_names = [], bartender_names = [],
                missing_waiters = 0, missing_bartenders = 0 \<rparr>)"
  by (simp add: build_event_def Let_def time_to_minutes_clock_text [OF assms(1)]
      time_to_minutes_clock_text [OF assms(2)] split: sum.splits prod.splits)

lemma build_event_clock_times:
  assumes "clock_text_ok st" "clock_text_ok en"
  shows "(\<forall>e. build_event d h g st en = Inl e \<longrightarrow> e = OverflowError) \<and>
     (\<forall>ev. build_event d h g st en = Inr ev \<longrightarrow>
        start_min ev = clock_text_minutes st \<and>
        end_min ev = (if clock_text_minutes en \<le> clock_text_minutes st
                      then clock_text_minutes en + 1440 else clock_text_minutes en) \<and>
        arrival_min ev = start_min ev - 120 \<and>
        (st = en \<longrightarrow> end_min ev = start_min ev + 1440))"
  using calc_staff_error [of g]
  by (auto simp add: build_event_result [OF assms] split: sum.splits prod.splits)

lemma build_event_returns:
  assumes "clock_text_ok st" "clock_text_ok en" "1 \<le> g" "g < 2 ^ 1024"
  shows "\<exists>ev. build_event d h g st en = Inr ev"
proof -
  obtain w b where "calc_staff g = Inr (w, b)"
    using calc_staff_returns [OF assms(3,4)] by blast
  then show ?thesis by (simp add: build_event_result [OF assms(1,2)])
qed

text \<open>
  C5, as the code has it: for every day, venue, pair of valid clock texts and positive
  guest count, \<^verbatim>\<open>build_event\<close> can only fail with the \<^verbatim>\<open>OverflowError\<close> of the
  staffing division, and it returns an event for every guest count below \<open>2 ^ 1024\<close>.
  The event it returns has a start minute equal to the parsed start, an end minute
  equal to the parsed end plus 1440 whenever the parsed end is at most the parsed
  start (so equal texts give a span of 1440 minutes) and to the parsed end otherwise,
  and an arrival minute equal to the start minute minus 120, not clamped. For the
  start \<^verbatim>\<open>"23:30"\<close> and the end \<^verbatim>\<open>"01:00"\<close> the start minute is 1410, the end minute
  1500 and the arrival minute \<open>1410 - 120 = 1290\<close>.
\<close>

theorem build_event_times:
  "clock_text_ok st \<Longrightarrow> clock_text_ok en \<Longrightarrow> 1 \<le> g \<Longrightarrow>
     (g < 2 ^ 1024 \<longrightarrow> (\<exists>ev. build_event d h g st en = Inr ev)) \<and>
     (\<forall>e. build_event d h g st en = Inl e \<longrightarrow> e = OverflowError) \<and>
     (\<forall>ev. build_event d h g st en = Inr ev \<longrightarrow>
        start_min ev = clock_text_minutes st \<and>
        end_min ev = (if clock_text_minutes en \<le> clock_text_minutes st
                      then clock_text_minutes en + 1440 else clock_text_minutes en) \<and>
        arrival_min ev = start_min ev - 120 \<and>
        (st = en \<longrightarrow> end_min ev = start_min ev + 1440)) \<and>
     (g < 2 ^ 1024 \<longrightarrow> (\<exists>ev. build_event d h g ''23:30'' ''01:00'' = Inr ev)) \<and>
     (\<forall>ev. build_event d h g ''23:30'' ''01:00'' = Inr ev \<longrightarrow>
        start_min ev = 1410 \<and> end_min ev = 1500 \<and> arrival_min ev = 1290)"
proof -
  assume st: "clock_text_ok st" and en: "clock_text_ok en" and g: "1 \<le> g"
  have 1: "g < 2 ^ 1024 \<longrightarrow> (\<exists>ev. build_event d h g st en = Inr ev)"
    using build_event_returns [OF st en g] by blast
  have 2: "g < 2 ^ 1024 \<longrightarrow> (\<exists>ev. build_event d h g ''23:30'' ''01:00'' = Inr ev)"
    using build_event_returns [OF clock_text_samples(1,3) g] by blast
  have 3: "\<forall>ev. build_event d h g ''23:30'' ''01:00'' = Inr ev \<longrightarrow>
        start_min ev = 1410 \<and> end_min ev = 1500 \<and> arrival_min ev = 1290"
    using build_event_clock_times [OF clock_text_samples(1,3), of d h g]
    by (simp add: clock_text_samples)
  from 1 2 3 build_event_clock_times [OF st en, of d h g] show ?thesis by blast
qed

theorem build_event_times_witness:
  "clock_text_ok ''01:00'' \<and> clock_text_ok ''03:00'' \<and> (1::int) \<le> 150 \<and> (150::int) < 2 ^ 1024 \<and>
   (\<exists>ev. build_event ''d'' ''A'' 150 ''01:00'' ''03:00'' = Inr ev \<and>
      start_min ev = 60 \<and> end_min ev = 180 \<and> arrival_min ev = - 60) \<and>
   (\<exists>ev. build_event ''d'' ''A'' 150 ''01:00'' ''01:00'' = Inr ev \<and>
      end_min ev = 1500 \<and> end_min ev = start_min ev + 1440)"
proof -
  have g: "(1::int) \<le> 150" "(150::int) < 2 ^ 1024" by simp_all
  note a = build_event_times [OF clock_text_samples(3) clock_text_samples(5) g(1),
      of "''d''" "''A''"]
  note b = build_event_times [OF clock_text_samples(3) clock_text_samples(3) g(1),
      of "''d''" "''A''"]
  from a g(2) obtain ev1 where ev1: "build_event ''d'' ''A'' 150 ''01:00'' ''03:00'' = Inr ev1"
    by blast
  from b g(2) obtain ev2 where ev2: "build_event ''d'' ''A'' 150 ''01:00'' ''01:00'' = Inr ev2"
    by blast
  have "start_min ev1 = 60 \<and> end_min ev1 = 180 \<and> arrival_min ev1 = - 60"
    using a ev1 by (simp add: clock_text_samples)
  moreover have "end_min ev2 = 1500 \<and> end_min ev2 = start_min ev2 + 1440"
    using b ev2 by (simp add: clock_text_samples)
  ultimately show ?thesis
    using ev1 ev2 g clock_text_samples(3) clock_text_samples(5) by blast
qed

text \<open>
  The arrival minute of the event from \<^verbatim>\<open>"23:30"\<close> to \<^verbatim>\<open>"01:00"\<close> is 1290, not
  1410 (which is its start minute); and for \<open>20 * 2 ^ 1025\<close> guests no event is
  built, because the staffing division overflows.
\<close>

theorem build_event_arrival_counterexample:
  "map_sum id arrival_min (build_event ''d'' ''A'' 150 ''23:30'' ''01:00'') = Inr 1290 \<and>
   map_sum id arrival_min (build_event ''d'' ''A'' 150 ''23:30'' ''01:00'') \<noteq> Inr 1410 \<and>
   map_sum id end_min (build_event ''d'' ''A'' 150 ''23:30'' ''01:00'') = Inr 1500 \<and>
   build_event ''d'' ''A'' (20 * 2 ^ 1025) ''23:30'' ''01:00'' = Inl OverflowError"
proof -
  have "calc_staff (20 * 2 ^ 1025) = Inl OverflowError"
    by (rule calc_staff_overflow) simp
  then show ?thesis
    by (simp add: build_event_result [OF clock_text_samples(1,3)] calc_staff_150
        clock_text_samples)
qed

section \<open>Assignment theorems\<close>

subsection \<open>The selection loop and the candidate lists\<close>

lemma choose_loop_eq:
  "choose_loop ev sch need chosen xs =
     chosen @
       (if int (length chosen) \<le> need
        then take (nat (need - int (length chosen))) (filter (\<lambda>e. can_assign (name e) ev sch) xs)
        else filter (\<lambda>e. can_assign (name e) ev sch) xs)"
proof (induction xs arbitrary: chosen)
  case Nil
  show ?case by simp
next
  case (Cons e es)
  show ?case
  proof (cases "int (length chosen) = need")
    case True
    then show ?thesis by simp
  next
    case False
    note ne = this
    show ?thesis
    proof (cases "can_assign (name e) ev sch")
      case False
      with ne show ?thesis by (simp add: Cons.IH)
    next
      case True
      show ?thesis
      proof (cases "int (length chosen) < need")
        case True
        then have "nat (need - int (length chosen)) = Suc (nat (need - (1 + int (length chosen))))"
          by simp
        with ne True \<open>can_assign (name e) ev sch\<close> show ?thesis
          by (simp add: Cons.IH)
      next
        case False
        with ne \<open>can_assign (name e) ev sch\<close> show ?thesis by (simp add: Cons.IH)
      qed
    qed
  qed
qed

lemma choose_loop_take:
  "0 \<le> need \<Longrightarrow>
   choose_loop ev sch need [] xs = take (nat need) (filter (\<lambda>e. can_assign (name e) ev sch) xs)"
  by (simp add: choose_loop_eq)

lemma choose_loop_subset:
  "set (choose_loop ev sch need [] xs) \<subseteq> {e \<in> set xs. can_assign (name e) ev sch}"
  by (auto simp add: choose_loop_eq dest: in_set_takeD)

lemma choose_loop_distinct:
  "distinct xs \<Longrightarrow> distinct (choose_loop ev sch need [] xs)"
  by (simp add: choose_loop_eq)

lemma set_sorted_pool:
  "set (sorted_pool r ev employees a) = {e \<in> set employees. role e = r \<and> day ev \<in> set (days e)}"
  by (auto simp add: sorted_pool_def available_def)

lemma distinct_sorted_pool:
  "distinct employees \<Longrightarrow> distinct (sorted_pool r ev employees a)"
  by (simp add: sorted_pool_def available_def)

lemma chosen_w_subset:
  "set (chosen_w ev employees a sch) \<subseteq>
     {e \<in> set employees. role e = ''waiter'' \<and> day ev \<in> set (days e) \<and> can_assign (name e) ev sch}"
  using choose_loop_subset [of ev sch "waiters ev" "sorted_pool ''waiter'' ev employees a"]
  by (auto simp add: chosen_w_def set_sorted_pool)

lemma chosen_b_subset:
  "set (chosen_b ev employees a sch) \<subseteq>
     {e \<in> set employees. role e = ''bartender'' \<and> day ev \<in> set (days e) \<and> can_assign (name e) ev sch}"
  using choose_loop_subset [of ev sch "bartenders ev" "sorted_pool ''bartender'' ev employees a"]
  by (auto simp add: chosen_b_def set_sorted_pool)

lemma distinct_chosen:
  assumes "distinct (map name employees)"
  shows "distinct (map name (chosen_w ev employees a sch @ chosen_b ev employees a sch))"
proof -
  from assms have d: "distinct employees" and i: "inj_on name (set employees)"
    by (simp_all add: distinct_map)
  have dw: "distinct (chosen_w ev employees a sch)"
    unfolding chosen_w_def by (intro choose_loop_distinct distinct_sorted_pool d)
  have db: "distinct (chosen_b ev employees a sch)"
    unfolding chosen_b_def by (intro choose_loop_distinct distinct_sorted_pool d)
  have sw: "set (chosen_w ev employees a sch) \<subseteq> set employees"
    using chosen_w_subset [of ev employees a sch] by auto
  have sb: "set (chosen_b ev employees a sch) \<subseteq> set employees"
    using chosen_b_subset [of ev employees a sch] by auto
  have disj: "set (chosen_w ev employees a sch) \<inter> set (chosen_b ev employees a sch) = {}"
  proof -
    have "False" if "x \<in> set (chosen_w ev employees a sch)"
      and "x \<in> set (chosen_b ev employees a sch)" for x
    proof -
      have "role x = ''waiter''" using that(1) chosen_w_subset [of ev employees a sch] by blast
      moreover have "role x = ''bartender''"
        using that(2) chosen_b_subset [of ev employees a sch] by blast
      ultimately show False by simp
    qed
    then show ?thesis by blast
  qed
  have "distinct (chosen_w ev employees a sch @ chosen_b ev employees a sch)"
    using dw db disj by simp
  moreover have "inj_on name (set (chosen_w ev employees a sch @ chosen_b ev employees a sch))"
    using i sw sb by (auto intro: inj_on_subset)
  ultimately show ?thesis by (simp only: distinct_map) 
qed

lemma sorted_pool_ordered:
  assumes "i < j" "j < length (sorted_pool r ev employees a)"
  shows "load_of a (name (sorted_pool r ev employees a ! i)) < load_of a (name (sorted_pool r ev employees a ! j)) \<or>
     (load_of a (name (sorted_pool r ev employees a ! i)) = load_of a (name (sorted_pool r ev employees a ! j)) \<and>
      (if 4 \<le> difficulty ev
       then rank (sorted_pool r ev employees a ! i) \<le> rank (sorted_pool r ev employees a ! j)
       else rank (sorted_pool r ev employees a ! j) \<le> rank (sorted_pool r ev employees a ! i)))"
proof -
  let ?ps = "sorted_pool r ev employees a"
  let ?k = "sort_key_of (difficulty ev) a"
  have "sorted (map ?k ?ps)" unfolding sorted_pool_def by (rule sorted_sort_key)
  moreover have "i \<le> j" "j < length (map ?k ?ps)" using assms by simp_all
  ultimately have "map ?k ?ps ! i \<le> map ?k ?ps ! j" by (rule sorted_nth_mono)
  then have "?k (?ps ! i) \<le> ?k (?ps ! j)" using assms by simp
  then show ?thesis by (auto simp add: sort_key_of_def split: if_splits)
qed

lemma sorted_pool_stable:
  "filter (\<lambda>e. load_of a (name e) = l \<and> rank e = k) (sorted_pool r ev employees a) =
   filter (\<lambda>e. load_of a (name e) = l \<and> rank e = k)
     (filter (\<lambda>e. role e = r) (filter (\<lambda>e. day ev \<in> set (days e)) employees))"
proof -
  let ?f = "sort_key_of (difficulty ev) a"
  let ?kk = "if 4 \<le> difficulty ev then (l, k) else (l, - k)"
  have eq: "(\<lambda>e. load_of a (name e) = l \<and> rank e = k) = (\<lambda>e. ?f e = ?kk)"
    by (auto simp add: sort_key_of_def fun_eq_iff)
  show ?thesis
    unfolding eq sorted_pool_def available_def by (rule sort_key_stable)
qed

lemma assign_event_names:
  "waiter_names (fst (assign_event ev employees a sch)) = map name (chosen_w ev employees a sch) \<and>
   bartender_names (fst (assign_event ev employees a sch)) = map name (chosen_b ev employees a sch)"
  by (simp add: assign_event_def Let_def split: prod.splits)

lemma build_event_staff:
  "build_event d h g st en = Inr ev \<Longrightarrow> 3 \<le> waiters ev \<and> 1 \<le> bartenders ev"
  using calc_staff_minimum [of g]
  by (auto simp add: build_event_def Let_def split: sum.splits prod.splits)

subsection \<open>The commit loop and the busy intervals\<close>

lemma clash_sym: "clash x y = clash y x"
  by (auto simp add: clash_def overlaps_def split: prod.splits)

lemma pairwise_free_snoc:
  "pairwise_free (l @ [y]) = (pairwise_free l \<and> list_all (\<lambda>x. \<not> clash x y) l)"
  by (induction l) auto

lemma pairwise_free_nth:
  "pairwise_free l \<Longrightarrow> i < j \<Longrightarrow> j < length l \<Longrightarrow> \<not> clash (l ! i) (l ! j)"
proof (induction l arbitrary: i j)
  case Nil
  then show ?case by simp
next
  case (Cons x xs)
  show ?case
  proof (cases i)
    case 0
    with Cons.prems obtain j' where j: "j = Suc j'" "j' < length xs"
      by (cases j) auto
    from Cons.prems(1) have "list_all (\<lambda>y. \<not> clash x y) xs" by simp
    with j show ?thesis using 0 by (simp add: list_all_length)
  next
    case (Suc i')
    with Cons.prems obtain j' where j: "j = Suc j'" "i' < j'" "j' < length xs"
      by (cases j) auto
    from Cons.prems(1) have "pairwise_free xs" by simp
    from Cons.IH [OF this j(2) j(3)] show ?thesis using Suc j by simp
  qed
qed

lemma can_assign_loop_iff:
  "can_assign_loop l ev = list_all (\<lambda>x. \<not> clash x (day ev, arrival_min ev, end_min ev)) l"
  by (induction l ev rule: can_assign_loop.induct) (auto simp add: clash_def)

lemma busy_of_fold_commit:
  "distinct (map name es) \<Longrightarrow>
   busy_of (snd (fold (commit ev) es (a, sch))) n =
     (if n \<in> name ` set es then busy_of sch n @ [(day ev, arrival_min ev, end_min ev)]
      else busy_of sch n)"
proof (induction es arbitrary: a sch)
  case Nil
  show ?case by simp
next
  case (Cons e es)
  let ?a = "a(name e \<mapsto> load_of a (name e) + 1)"
  let ?sch = "sch(name e \<mapsto> busy_of sch (name e) @ [(day ev, arrival_min ev, end_min ev)])"
  have c: "commit ev e (a, sch) = (?a, ?sch)" by (simp add: commit_def)
  from Cons.prems have d: "distinct (map name es)" and ne: "name e \<notin> name ` set es" by auto
  have "busy_of (snd (fold (commit ev) (e # es) (a, sch))) n =
      busy_of (snd (fold (commit ev) es (?a, ?sch))) n"
    by (simp add: c)
  also have "\<dots> = (if n \<in> name ` set es
      then busy_of ?sch n @ [(day ev, arrival_min ev, end_min ev)] else busy_of ?sch n)"
    by (rule Cons.IH [OF d])
  also have "\<dots> = (if n \<in> name ` set (e # es)
      then busy_of sch n @ [(day ev, arrival_min ev, end_min ev)] else busy_of sch n)"
    using ne by (auto simp add: busy_of_def)
  finally show ?case .
qed

lemma load_of_fold_commit:
  "distinct (map name es) \<Longrightarrow>
   load_of (fst (fold (commit ev) es (a, sch))) n =
     (if n \<in> name ` set es then load_of a n + 1 else load_of a n)"
proof (induction es arbitrary: a sch)
  case Nil
  show ?case by simp
next
  case (Cons e es)
  let ?a = "a(name e \<mapsto> load_of a (name e) + 1)"
  let ?sch = "sch(name e \<mapsto> busy_of sch (name e) @ [(day ev, arrival_min ev, end_min ev)])"
  have c: "commit ev e (a, sch) = (?a, ?sch)" by (simp add: commit_def)
  from Cons.prems have d: "distinct (map name es)" and ne: "name e \<notin> name ` set es" by auto
  have "load_of (fst (fold (commit ev) (e # es) (a, sch))) n =
      load_of (fst (fold (commit ev) es (?a, ?sch))) n"
    by (simp add: c)
  also have "\<dots> = (if n \<in> name ` set es then load_of ?a n + 1 else load_of ?a n)"
    by (rule Cons.IH [OF d])
  also have "\<dots> = (if n \<in> name ` set (e # es) then load_of a n + 1 else load_of a n)"
    using ne by (auto simp add: load_of_def)
  finally show ?case .
qed

lemma assign_event_schedule:
  "snd (snd (assign_event ev employees a sch)) =
     snd (fold (commit ev) (chosen_w ev employees a sch @ chosen_b ev employees a sch) (a, sch))"
  by (simp add: assign_event_def Let_def split: prod.splits)

lemma assign_event_preserves_free:
  assumes dn: "distinct (map name employees)"
    and inv: "\<forall>n. pairwise_free (busy_of sch n)"
  shows "pairwise_free (busy_of (snd (snd (assign_event ev employees a sch))) n)"
proof -
  let ?es = "chosen_w ev employees a sch @ chosen_b ev employees a sch"
  have d: "distinct (map name ?es)" using dn by (rule distinct_chosen)
  have b: "busy_of (snd (snd (assign_event ev employees a sch))) n =
      (if n \<in> name ` set ?es then busy_of sch n @ [(day ev, arrival_min ev, end_min ev)]
       else busy_of sch n)"
    unfolding assign_event_schedule by (rule busy_of_fold_commit [OF d])
  show ?thesis
  proof (cases "n \<in> name ` set ?es")
    case False
    with b inv show ?thesis by simp
  next
    case True
    then obtain e where e: "e \<in> set ?es" "n = name e" by blast
    then have "can_assign (name e) ev sch"
      using chosen_w_subset [of ev employees a sch] chosen_b_subset [of ev employees a sch]
      by auto
    then have "list_all (\<lambda>x. \<not> clash x (day ev, arrival_min ev, end_min ev)) (busy_of sch n)"
      using e(2) by (simp add: can_assign_def can_assign_loop_iff)
    with b True inv show ?thesis by (simp add: pairwise_free_snoc)
  qed
qed

lemma assign_all_preserves_free:
  "distinct (map name employees) \<Longrightarrow> \<forall>n. pairwise_free (busy_of sch n) \<Longrightarrow>
   pairwise_free (busy_of (snd (snd (assign_all week employees a sch))) n)"
proof (induction week arbitrary: a sch)
  case Nil
  then show ?case by simp
next
  case (Cons ev evs)
  obtain ev' a' sch' where r: "assign_event ev employees a sch = (ev', a', sch')"
    by (cases "assign_event ev employees a sch") auto
  have "\<forall>n. pairwise_free (busy_of sch' n)"
    using assign_event_preserves_free [OF Cons.prems(1) Cons.prems(2), of ev a] r by simp
  from Cons.IH [OF Cons.prems(1) this, of a'] show ?case
    by (cases "assign_all evs employees a' sch'") (simp add: r)
qed

lemma run_week_free:
  "distinct (map name employees) \<Longrightarrow>
   pairwise_free (busy_of (snd (snd (run_week week employees))) n)"
  unfolding run_week_def by (rule assign_all_preserves_free) (simp_all add: busy_of_def)

subsection \<open>The sample data, evaluated\<close>

lemmas assign_defs =
  assign_event_def chosen_w_def chosen_b_def sorted_pool_def available_def sort_key_of_def
  can_assign_def busy_of_def load_of_def commit_def overlaps_def Let_def

lemmas sample_defs =
  easy_event_def later_event_def clashing_event_def hard_event_def
  senior_waiter_def junior_waiter_def barman_def

lemma sample_events_built:
  "build_event ''d'' ''A'' 60 ''10:00'' ''12:00'' = Inr easy_event"
  "build_event ''d'' ''A'' 60 ''14:00'' ''16:00'' = Inr later_event"
  "build_event ''d'' ''A'' 60 ''13:00'' ''15:00'' = Inr clashing_event"
  "build_event ''d'' ''A'' 450 ''10:00'' ''12:00'' = Inr hard_event"
proof -
  have t: "time_to_minutes ''10:00'' = Inr 600" "time_to_minutes ''12:00'' = Inr 720"
      "time_to_minutes ''14:00'' = Inr 840" "time_to_minutes ''16:00'' = Inr 960"
      "time_to_minutes ''13:00'' = Inr 780" "time_to_minutes ''15:00'' = Inr 900"
    using time_to_minutes_five [of "CHR ''1''" "CHR ''0''" "CHR ''0''" "CHR ''0''"]
      time_to_minutes_five [of "CHR ''1''" "CHR ''2''" "CHR ''0''" "CHR ''0''"]
      time_to_minutes_five [of "CHR ''1''" "CHR ''4''" "CHR ''0''" "CHR ''0''"]
      time_to_minutes_five [of "CHR ''1''" "CHR ''6''" "CHR ''0''" "CHR ''0''"]
      time_to_minutes_five [of "CHR ''1''" "CHR ''3''" "CHR ''0''" "CHR ''0''"]
      time_to_minutes_five [of "CHR ''1''" "CHR ''5''" "CHR ''0''" "CHR ''0''"]
    by (simp_all add: is_digit_def digit_val_def)
  have m: "minutes_to_time 480 = ''08:00''" "minutes_to_time 720 = ''12:00''"
      "minutes_to_time 660 = ''11:00''"
    by (simp_all add: minutes_to_time_def fmt_02d_def digit_char_def)
  have c: "calc_staff 60 = Inr (3, 1)" "calc_staff 450 = Inr (23, 8)"
    by (simp_all add: float_defs)
  show "build_event ''d'' ''A'' 60 ''10:00'' ''12:00'' = Inr easy_event"
    by (simp add: build_event_def c t m difficulty_from_guests_def easy_event_def)
  show "build_event ''d'' ''A'' 60 ''14:00'' ''16:00'' = Inr later_event"
    by (simp add: build_event_def c t m difficulty_from_guests_def later_event_def)
  show "build_event ''d'' ''A'' 60 ''13:00'' ''15:00'' = Inr clashing_event"
    by (simp add: build_event_def c t m difficulty_from_guests_def clashing_event_def)
  show "build_event ''d'' ''A'' 450 ''10:00'' ''12:00'' = Inr hard_event"
    by (simp add: build_event_def c t m difficulty_from_guests_def hard_event_def)
qed

lemma sample_first:
  "assign_event easy_event [senior_waiter, barman] Map.empty Map.empty =
     (easy_event\<lparr> waiter_names := [''senior''], bartender_names := [''barman''],
                  missing_waiters := 2, missing_bartenders := 0 \<rparr>,
      [''senior'' \<mapsto> 1, ''barman'' \<mapsto> 1],
      [''senior'' \<mapsto> [(''d'', 480, 720)], ''barman'' \<mapsto> [(''d'', 480, 720)]])"
  by (simp add: assign_defs sample_defs)

lemma sample_second:
  "assign_event clashing_event [senior_waiter, barman]
      [''senior'' \<mapsto> 1, ''barman'' \<mapsto> 1]
      [''senior'' \<mapsto> [(''d'', 480, 720)], ''barman'' \<mapsto> [(''d'', 480, 720)]] =
     (clashing_event\<lparr> waiter_names := [], bartender_names := [],
                  missing_waiters := 3, missing_bartenders := 1 \<rparr>,
      [''senior'' \<mapsto> 1, ''barman'' \<mapsto> 1],
      [''senior'' \<mapsto> [(''d'', 480, 720)], ''barman'' \<mapsto> [(''d'', 480, 720)]])"
  by (simp add: assign_defs sample_defs)

lemma sample_third:
  "assign_event later_event [senior_waiter, barman]
      [''senior'' \<mapsto> 1, ''barman'' \<mapsto> 1]
      [''senior'' \<mapsto> [(''d'', 480, 720)], ''barman'' \<mapsto> [(''d'', 480, 720)]] =
     (later_event\<lparr> waiter_names := [''senior''], bartender_names := [''barman''],
                  missing_waiters := 2, missing_bartenders := 0 \<rparr>,
      [''senior'' \<mapsto> 2, ''barman'' \<mapsto> 2],
      [''senior'' \<mapsto> [(''d'', 480, 720), (''d'', 720, 960)],
       ''barman'' \<mapsto> [(''d'', 480, 720), (''d'', 720, 960)]])"
  by (simp add: assign_defs sample_defs)

lemma sample_run_busy:
  "busy_of (snd (snd (run_week [easy_event, clashing_event, later_event] [senior_waiter, barman])))
      ''senior'' = [(''d'', 480, 720), (''d'', 720, 960)]"
  by (simp add: run_week_def sample_first sample_second sample_third busy_of_def)

lemma sample_hard:
  "waiter_names (fst (assign_event hard_event [junior_waiter, senior_waiter] Map.empty Map.empty))
     = [''senior'', ''junior'']"
  by (simp add: assign_defs sample_defs)

lemma sample_hard_same_order:
  "waiter_names (fst (assign_event hard_event [senior_waiter, junior_waiter] Map.empty Map.empty))
     = [''senior'', ''junior'']"
  by (simp add: assign_defs sample_defs)

lemma sample_easy:
  "waiter_names (fst (assign_event easy_event [senior_waiter, junior_waiter] Map.empty Map.empty))
     = [''junior'', ''senior'']"
  by (simp add: assign_defs sample_defs)

lemma sample_easy_same_order:
  "waiter_names (fst (assign_event easy_event [junior_waiter, senior_waiter] Map.empty Map.empty))
     = [''junior'', ''senior'']"
  by (simp add: assign_defs sample_defs)

lemma sample_roster:
  "map_sum id load_employees_from_db
     (save_employees_to_db empty_db [raw_cook, raw_waiter, raw_nameless, raw_barman]) =
     Inr [\<lparr> eid = 2, name = ''barman'', phone = ''972500000003'', role = ''bartender'',
            days = [''d''], rank = 2 \<rparr>,
          \<lparr> eid = 1, name = ''senior'', phone = ''972500000001'', role = ''waiter'',
            days = [''d'', ''e''], rank = 1 \<rparr>]"
  by (simp add: load_employees_from_db_def save_employees_to_db_def save_one_def Let_def
      record_rank_def raw_cook_def raw_waiter_def raw_nameless_def raw_barman_def empty_db_def
      or_empty_def strip_def is_space_def)

lemma sample_nameless:
  "waiter_names (fst (assign_event easy_event [nameless_waiter] Map.empty Map.empty)) = [[]]"
  by (simp add: assign_defs sample_defs nameless_waiter_def)

subsection \<open>Busy intervals never overlap\<close>

text \<open>
  C1: in a run that starts with both dictionaries empty, over a roster whose names
  are pairwise different and any list of events in any order, two different entries
  of the busy list of one employee that lie on the same day never overlap under the
  half-open test \<open>s1 < e2 \<and> s2 < e1\<close>.
\<close>

theorem run_week_intervals_disjoint:
  "distinct (map name employees) \<Longrightarrow>
   busy_of (snd (snd (run_week week employees))) n = l \<Longrightarrow>
   i < length l \<Longrightarrow> j < length l \<Longrightarrow> i \<noteq> j \<Longrightarrow>
   l ! i = (d, s1, e1) \<Longrightarrow> l ! j = (d, s2, e2) \<Longrightarrow>
   \<not> overlaps s1 e1 s2 e2 \<and> \<not> (s1 < e2 \<and> s2 < e1)"
proof -
  assume dn: "distinct (map name employees)"
    and l: "busy_of (snd (snd (run_week week employees))) n = l"
    and ij: "i < length l" "j < length l" "i \<noteq> j"
    and v: "l ! i = (d, s1, e1)" "l ! j = (d, s2, e2)"
  have free: "pairwise_free l" using run_week_free [OF dn, of week n] l by simp
  have "\<not> clash (l ! i) (l ! j)"
  proof (cases "i < j")
    case True
    then show ?thesis using free ij by (intro pairwise_free_nth)
  next
    case False
    then have "j < i" using ij by simp
    then have "\<not> clash (l ! j) (l ! i)" using free ij by (intro pairwise_free_nth)
    then show ?thesis by (simp add: clash_sym)
  qed
  then show ?thesis by (simp add: v clash_def overlaps_def)
qed

theorem run_week_intervals_disjoint_witness:
  "distinct (map name [senior_waiter, barman]) \<and>
   busy_of (snd (snd (run_week [easy_event, clashing_event, later_event] [senior_waiter, barman])))
      ''senior'' = [(''d'', 480, 720), (''d'', 720, 960)] \<and>
   \<not> overlaps 480 720 720 960"
proof -
  have d: "distinct (map name [senior_waiter, barman])" by (simp add: sample_defs)
  show ?thesis
    using d sample_run_busy
      run_week_intervals_disjoint [OF d sample_run_busy, of 0 1 "''d''" 480 720 720 960]
    by simp
qed

subsection \<open>Assigned and missing counts\<close>

text \<open>
  C2: for every event whose required counts are not negative (every event of
  \<^verbatim>\<open>build_event\<close> requires at least 3 waiters and 1 bartender, lemma
  \<open>build_event_staff\<close>) and every roster, after \<^verbatim>\<open>assign_event\<close> the number of
  assigned waiter names plus \<^verbatim>\<open>missing_waiters\<close> is the required number of waiters,
  likewise for bartenders; both missing counts are at least 0 and neither list is
  longer than its required count. The required counts themselves are unchanged.
\<close>

theorem assign_event_counts:
  "0 \<le> waiters ev \<Longrightarrow> 0 \<le> bartenders ev \<Longrightarrow> ev' = fst (assign_event ev employees a sch) \<Longrightarrow>
   int (length (waiter_names ev')) + missing_waiters ev' = waiters ev \<and>
   int (length (bartender_names ev')) + missing_bartenders ev' = bartenders ev \<and>
   0 \<le> missing_waiters ev' \<and> 0 \<le> missing_bartenders ev' \<and>
   int (length (waiter_names ev')) \<le> waiters ev \<and>
   int (length (bartender_names ev')) \<le> bartenders ev \<and>
   waiters ev' = waiters ev \<and> bartenders ev' = bartenders ev"
proof -
  assume w: "0 \<le> waiters ev" and b: "0 \<le> bartenders ev"
    and e: "ev' = fst (assign_event ev employees a sch)"
  have lw: "int (length (chosen_w ev employees a sch)) \<le> waiters ev"
    using w by (simp add: chosen_w_def choose_loop_take)
  have lb: "int (length (chosen_b ev employees a sch)) \<le> bartenders ev"
    using b by (simp add: chosen_b_def choose_loop_take)
  show ?thesis
    using lw lb unfolding e by (simp add: assign_event_def Let_def split: prod.splits)
qed

theorem assign_event_counts_witness:
  "0 \<le> waiters easy_event \<and> 0 \<le> bartenders easy_event \<and>
   waiter_names (fst (assign_event easy_event [senior_waiter, barman] Map.empty Map.empty)) = [''senior''] \<and>
   missing_waiters (fst (assign_event easy_event [senior_waiter, barman] Map.empty Map.empty)) = 2 \<and>
   waiters easy_event = 3"
  using assign_event_counts [of easy_event _ "[senior_waiter, barman]" Map.empty Map.empty, OF _ _ refl]
  by (simp add: sample_first) (simp add: easy_event_def)

subsection \<open>Order of selection\<close>

text \<open>
  C4: the candidates of a role are ordered by load, ascending, and among equal loads
  by rank, ascending when the difficulty of the event is at least 4 and descending
  otherwise; candidates with equal load and rank keep the order of the roster. The
  assigned names of a role are the names of the first required-count candidates, in
  that order, that pass \<^verbatim>\<open>can_assign\<close>. With a waiter of rank 1 and a waiter of rank 5
  of equal load, the event of difficulty 5 takes the waiter of rank 1 first and the
  event of difficulty 2 the waiter of rank 5.
\<close>

theorem assign_event_selection_order:
  "(\<forall>i j. i < j \<and> j < length (sorted_pool r ev employees a) \<longrightarrow>
      load_of a (name (sorted_pool r ev employees a ! i)) < load_of a (name (sorted_pool r ev employees a ! j)) \<or>
      (load_of a (name (sorted_pool r ev employees a ! i)) = load_of a (name (sorted_pool r ev employees a ! j)) \<and>
       (if 4 \<le> difficulty ev
        then rank (sorted_pool r ev employees a ! i) \<le> rank (sorted_pool r ev employees a ! j)
        else rank (sorted_pool r ev employees a ! j) \<le> rank (sorted_pool r ev employees a ! i)))) \<and>
   (\<forall>l k. filter (\<lambda>e. load_of a (name e) = l \<and> rank e = k) (sorted_pool r ev employees a) =
      filter (\<lambda>e. load_of a (name e) = l \<and> rank e = k)
        (filter (\<lambda>e. role e = r) (filter (\<lambda>e. day ev \<in> set (days e)) employees))) \<and>
   (0 \<le> waiters ev \<longrightarrow>
      waiter_names (fst (assign_event ev employees a sch)) =
        map name (take (nat (waiters ev))
          (filter (\<lambda>e. can_assign (name e) ev sch) (sorted_pool ''waiter'' ev employees a)))) \<and>
   (0 \<le> bartenders ev \<longrightarrow>
      bartender_names (fst (assign_event ev employees a sch)) =
        map name (take (nat (bartenders ev))
          (filter (\<lambda>e. can_assign (name e) ev sch) (sorted_pool ''bartender'' ev employees a)))) \<and>
   waiter_names (fst (assign_event hard_event [junior_waiter, senior_waiter] Map.empty Map.empty))
     = [''senior'', ''junior''] \<and>
   waiter_names (fst (assign_event easy_event [senior_waiter, junior_waiter] Map.empty Map.empty))
     = [''junior'', ''senior'']"
proof -
  have w: "0 \<le> waiters ev \<longrightarrow>
      waiter_names (fst (assign_event ev employees a sch)) =
        map name (take (nat (waiters ev))
          (filter (\<lambda>e. can_assign (name e) ev sch) (sorted_pool ''waiter'' ev employees a)))"
    by (simp add: assign_event_names chosen_w_def choose_loop_take)
  have b: "0 \<le> bartenders ev \<longrightarrow>
      bartender_names (fst (assign_event ev employees a sch)) =
        map name (take (nat (bartenders ev))
          (filter (\<lambda>e. can_assign (name e) ev sch) (sorted_pool ''bartender'' ev employees a)))"
    by (simp add: assign_event_names chosen_b_def choose_loop_take)
  show ?thesis
    using sorted_pool_ordered [of _ _ r ev employees a] sorted_pool_stable [of a _ _ r ev employees]
      w b sample_hard sample_easy
    by blast
qed

theorem assign_event_selection_order_witness:
  "sorted_pool ''waiter'' hard_event [junior_waiter, senior_waiter, barman] Map.empty
     = [senior_waiter, junior_waiter] \<and>
   (0::nat) < 1 \<and>
   1 < length (sorted_pool ''waiter'' hard_event [junior_waiter, senior_waiter, barman] Map.empty) \<and>
   load_of Map.empty (name senior_waiter) = load_of Map.empty (name junior_waiter) \<and>
   4 \<le> difficulty hard_event \<and> rank senior_waiter \<le> rank junior_waiter \<and>
   0 \<le> waiters hard_event \<and> 0 \<le> bartenders hard_event \<and>
   waiter_names (fst (assign_event hard_event [junior_waiter, senior_waiter, barman] Map.empty Map.empty))
     = map name (take (nat (waiters hard_event))
         (filter (\<lambda>e. can_assign (name e) hard_event Map.empty)
           (sorted_pool ''waiter'' hard_event [junior_waiter, senior_waiter, barman] Map.empty))) \<and>
   bartender_names (fst (assign_event hard_event [junior_waiter, senior_waiter, barman] Map.empty Map.empty))
     = map name (take (nat (bartenders hard_event))
         (filter (\<lambda>e. can_assign (name e) hard_event Map.empty)
           (sorted_pool ''bartender'' hard_event [junior_waiter, senior_waiter, barman] Map.empty)))"
proof -
  have p: "sorted_pool ''waiter'' hard_event [junior_waiter, senior_waiter, barman] Map.empty
     = [senior_waiter, junior_waiter]"
    by (simp add: assign_defs sample_defs)
  have h: "0 \<le> waiters hard_event" "0 \<le> bartenders hard_event" "4 \<le> difficulty hard_event"
    by (simp_all add: hard_event_def)
  show ?thesis
    using assign_event_selection_order [of "''waiter''" hard_event
        "[junior_waiter, senior_waiter, barman]" Map.empty Map.empty] p h
    by (simp add: load_of_def senior_waiter_def junior_waiter_def)
qed

subsection \<open>Malformed roster records\<close>

lemma save_one_skip: "\<not> well_formed_record e \<Longrightarrow> save_one d e = Inr d"
  by (auto simp add: save_one_def well_formed_record_def Let_def)

lemma save_loop_filter: "save_loop d es = save_loop d (filter well_formed_record es)"
proof (induction es arbitrary: d)
  case Nil
  show ?case by simp
next
  case (Cons e es)
  show ?case
  proof (cases "well_formed_record e")
    case True
    then show ?thesis by (simp add: Cons.IH split: sum.splits)
  next
    case False
    then show ?thesis by (simp add: save_one_skip Cons.IH)
  qed
qed

lemma save_one_row:
  assumes "save_one d e = Inr d'"
  shows "map (\<lambda>r. (row_name r, row_role r)) (rows d') =
       map (\<lambda>r. (row_name r, row_role r)) (rows d) @
         (if well_formed_record e
          then [(strip (or_empty (raw_name e)), strip (or_empty (raw_role e)))] else [])"
  using assms
  by (auto simp add: save_one_def well_formed_record_def Let_def split: if_splits)

lemma save_loop_rows:
  "save_loop d es = Inr d' \<Longrightarrow>
   map (\<lambda>r. (row_name r, row_role r)) (rows d') =
     map (\<lambda>r. (row_name r, row_role r)) (rows d) @
       map (\<lambda>e. (strip (or_empty (raw_name e)), strip (or_empty (raw_role e))))
         (filter well_formed_record es)"
proof (induction es arbitrary: d)
  case Nil
  then show ?case by simp
next
  case (Cons e es)
  from Cons.prems obtain d1 where d1: "save_one d e = Inr d1" "save_loop d1 es = Inr d'"
    by (auto split: sum.splits)
  show ?case
    using Cons.IH [OF d1(2)] save_one_row [OF d1(1)] by simp
qed

lemma saved_rows:
  "save_employees_to_db d raw = Inr d' \<Longrightarrow>
   map (\<lambda>r. (row_name r, row_role r)) (rows d') =
     map (\<lambda>e. (strip (or_empty (raw_name e)), strip (or_empty (raw_role e))))
       (filter well_formed_record raw)"
  using save_loop_rows [of "d\<lparr> rows := [] \<rparr>" raw d']
  by (simp add: save_employees_to_db_def)

lemma save_one_returns:
  assumes "well_formed_record e \<longrightarrow> - (2 ^ 63) \<le> record_rank e \<and> record_rank e < 2 ^ 63"
    and "well_formed_record e \<longrightarrow> seq d + 1 < 2 ^ 63"
  shows "\<exists>d'. save_one d e = Inr d' \<and>
     seq d' = seq d + (if well_formed_record e then 1 else 0)"
proof (cases "well_formed_record e")
  case False
  then show ?thesis by (simp add: save_one_skip)
next
  case True
  with assms have r: "- (2 ^ 63) \<le> record_rank e" "record_rank e < 2 ^ 63"
    and q: "seq d + 1 < 2 ^ 63" by simp_all
  from q have "\<not> 2 ^ 63 - 1 \<le> seq d" by simp
  then show ?thesis
    using True r by (auto simp add: save_one_def well_formed_record_def Let_def)
qed

lemma save_loop_returns:
  "\<forall>r \<in> set es. well_formed_record r \<longrightarrow> - (2 ^ 63) \<le> record_rank r \<and> record_rank r < 2 ^ 63 \<Longrightarrow>
   seq d + length (filter well_formed_record es) < 2 ^ 63 \<Longrightarrow>
   \<exists>d'. save_loop d es = Inr d'"
proof (induction es arbitrary: d)
  case Nil
  show ?case by simp
next
  case (Cons e es)
  have "\<exists>d1. save_one d e = Inr d1 \<and> seq d1 = seq d + (if well_formed_record e then 1 else 0)"
    using Cons.prems by (intro save_one_returns) auto
  then obtain d1 where d1: "save_one d e = Inr d1"
      "seq d1 = seq d + (if well_formed_record e then 1 else 0)"
    by blast
  have "seq d1 + length (filter well_formed_record es) < 2 ^ 63"
    using Cons.prems(2) d1(2) by (simp split: if_splits)
  moreover have "\<forall>r \<in> set es. well_formed_record r \<longrightarrow>
      - (2 ^ 63) \<le> record_rank r \<and> record_rank r < 2 ^ 63"
    using Cons.prems(1) by simp
  ultimately obtain d' where "save_loop d1 es = Inr d'" using Cons.IH by blast
  then show ?case by (simp add: d1(1))
qed

lemma loaded_from_row:
  "e \<in> set (load_employees_from_db d) \<Longrightarrow>
     \<exists>r \<in> set (rows d). name e = row_name r \<and> role e = row_role r"
  by (auto simp add: load_employees_from_db_def)

lemma length_loaded: "length (load_employees_from_db d) = length (rows d)"
  by (simp add: load_employees_from_db_def)

lemma loaded_well_formed:
  assumes "save_employees_to_db d raw = Inr d'" and "e \<in> set (load_employees_from_db d')"
  shows "\<exists>r \<in> set raw. well_formed_record r \<and>
     name e = strip (or_empty (raw_name r)) \<and> role e = strip (or_empty (raw_role r))"
proof -
  obtain row where row: "row \<in> set (rows d')"
      "name e = row_name row" "role e = row_role row"
    using loaded_from_row [OF assms(2)] by blast
  then have "(row_name row, row_role row) \<in>
      set (map (\<lambda>r. (row_name r, row_role r)) (rows d'))"
    by force
  then have "(row_name row, row_role row) \<in>
      set (map (\<lambda>e. (strip (or_empty (raw_name e)), strip (or_empty (raw_role e))))
       (filter well_formed_record raw))"
    by (simp only: saved_rows [OF assms(1)])
  then show ?thesis using row(2,3) by auto
qed

text \<open>
  C9, as the code has it. A roster entry whose role is outside the closed set (waiter,
  bartender) is in no candidate list of \<^verbatim>\<open>assign_event\<close>, for every roster and event:
  a candidate list holds only entries of its own role that are available on the day
  of the event, and every assigned name is the name of such an entry. A record whose
  name is missing or blank is stopped earlier, by \<^verbatim>\<open>save_employees_to_db\<close>, which
  also stops the records of a foreign role: saving a list of records has the same
  outcome, error or table, as saving its well-formed records alone, so a malformed
  record neither adds a row nor raises; after a save that returns, every employee
  loaded from the table has a name and one of the two roles and stems from a
  well-formed record, and there are as many of them as well-formed records, so every
  name that \<^verbatim>\<open>assign_event\<close> assigns from the loaded roster is the name, not blank,
  of a well-formed record; and the save returns whenever the ranks of the well-formed
  records fit 64 bits and the keys are not used up. \<^verbatim>\<open>assign_event\<close> has no check
  of the name of its own.
\<close>

theorem malformed_records_excluded:
  "save_employees_to_db d raw = save_employees_to_db d (filter well_formed_record raw) \<and>
   (\<forall>d'. save_employees_to_db d raw = Inr d' \<longrightarrow>
      (\<forall>e \<in> set (load_employees_from_db d').
         name e \<noteq> [] \<and> (role e = ''waiter'' \<or> role e = ''bartender'') \<and>
         (\<exists>r \<in> set raw. well_formed_record r \<and>
            name e = strip (or_empty (raw_name r)) \<and> role e = strip (or_empty (raw_role r)))) \<and>
      length (load_employees_from_db d') = length (filter well_formed_record raw) \<and>
      (\<forall>n \<in> set (waiter_names (fst (assign_event ev (load_employees_from_db d') a sch))) \<union>
            set (bartender_names (fst (assign_event ev (load_employees_from_db d') a sch))).
         n \<noteq> [] \<and>
         (\<exists>r \<in> set raw. well_formed_record r \<and> n = strip (or_empty (raw_name r))))) \<and>
   ((\<forall>r \<in> set raw. well_formed_record r \<longrightarrow>
        - (2 ^ 63) \<le> record_rank r \<and> record_rank r < 2 ^ 63) \<and>
    seq d + length (filter well_formed_record raw) < 2 ^ 63 \<longrightarrow>
      (\<exists>d'. save_employees_to_db d raw = Inr d')) \<and>
   (\<forall>e \<in> set (sorted_pool r ev employees a).
      e \<in> set employees \<and> role e = r \<and> day ev \<in> set (days e)) \<and>
   (\<forall>n \<in> set (waiter_names (fst (assign_event ev employees a sch))).
      \<exists>e \<in> set employees. name e = n \<and> role e = ''waiter'' \<and> day ev \<in> set (days e)) \<and>
   (\<forall>n \<in> set (bartender_names (fst (assign_event ev employees a sch))).
      \<exists>e \<in> set employees. name e = n \<and> role e = ''bartender'' \<and> day ev \<in> set (days e))"
proof -
  have 0: "save_employees_to_db d raw = save_employees_to_db d (filter well_formed_record raw)"
    unfolding save_employees_to_db_def by (rule save_loop_filter)
  have names: "\<exists>e \<in> set employees'. name e = n"
    if "n \<in> set (waiter_names (fst (assign_event ev employees' a sch))) \<union>
          set (bartender_names (fst (assign_event ev employees' a sch)))" for n employees'
    using that chosen_w_subset [of ev employees' a sch] chosen_b_subset [of ev employees' a sch]
    by (auto simp add: assign_event_names)
  have 1: "\<forall>d'. save_employees_to_db d raw = Inr d' \<longrightarrow>
      (\<forall>e \<in> set (load_employees_from_db d').
         name e \<noteq> [] \<and> (role e = ''waiter'' \<or> role e = ''bartender'') \<and>
         (\<exists>r \<in> set raw. well_formed_record r \<and>
            name e = strip (or_empty (raw_name r)) \<and> role e = strip (or_empty (raw_role r)))) \<and>
      length (load_employees_from_db d') = length (filter well_formed_record raw) \<and>
      (\<forall>n \<in> set (waiter_names (fst (assign_event ev (load_employees_from_db d') a sch))) \<union>
            set (bartender_names (fst (assign_event ev (load_employees_from_db d') a sch))).
         n \<noteq> [] \<and>
         (\<exists>r \<in> set raw. well_formed_record r \<and> n = strip (or_empty (raw_name r))))"
  proof (intro allI impI conjI ballI)
    fix d' e
    assume s: "save_employees_to_db d raw = Inr d'" and e: "e \<in> set (load_employees_from_db d')"
    from loaded_well_formed [OF s e] obtain r0 where r0: "r0 \<in> set raw" "well_formed_record r0"
        "name e = strip (or_empty (raw_name r0))" "role e = strip (or_empty (raw_role r0))"
      by blast
    then show "name e \<noteq> []" "role e = ''waiter'' \<or> role e = ''bartender''"
      by (simp_all add: well_formed_record_def)
    from r0 show "\<exists>r \<in> set raw. well_formed_record r \<and>
         name e = strip (or_empty (raw_name r)) \<and> role e = strip (or_empty (raw_role r))"
      by blast
  next
    fix d'
    assume s: "save_employees_to_db d raw = Inr d'"
    show "length (load_employees_from_db d') = length (filter well_formed_record raw)"
      using arg_cong [OF saved_rows [OF s], of length] by (simp add: length_loaded)
  next
    fix d' n
    assume s: "save_employees_to_db d raw = Inr d'"
      and n: "n \<in> set (waiter_names (fst (assign_event ev (load_employees_from_db d') a sch))) \<union>
          set (bartender_names (fst (assign_event ev (load_employees_from_db d') a sch)))"
    from names [OF n] obtain e where e: "e \<in> set (load_employees_from_db d')" "name e = n"
      by blast
    from loaded_well_formed [OF s e(1)] obtain r0 where r0: "r0 \<in> set raw" "well_formed_record r0"
        "name e = strip (or_empty (raw_name r0))"
      by blast
    with e(2) show "n \<noteq> []" by (auto simp add: well_formed_record_def)
    from r0 e(2) show "\<exists>r \<in> set raw. well_formed_record r \<and> n = strip (or_empty (raw_name r))"
      by blast
  qed
  have 2: "(\<forall>r \<in> set raw. well_formed_record r \<longrightarrow>
        - (2 ^ 63) \<le> record_rank r \<and> record_rank r < 2 ^ 63) \<and>
    seq d + length (filter well_formed_record raw) < 2 ^ 63 \<longrightarrow>
      (\<exists>d'. save_employees_to_db d raw = Inr d')"
    using save_loop_returns [of raw "d\<lparr> rows := [] \<rparr>"]
    by (simp add: save_employees_to_db_def)
  have 3: "\<forall>e \<in> set (sorted_pool r ev employees a).
      e \<in> set employees \<and> role e = r \<and> day ev \<in> set (days e)"
    by (simp add: set_sorted_pool)
  have 4: "\<forall>n \<in> set (waiter_names (fst (assign_event ev employees a sch))).
      \<exists>e \<in> set employees. name e = n \<and> role e = ''waiter'' \<and> day ev \<in> set (days e)"
    using chosen_w_subset [of ev employees a sch] by (auto simp add: assign_event_names)
  have 5: "\<forall>n \<in> set (bartender_names (fst (assign_event ev employees a sch))).
      \<exists>e \<in> set employees. name e = n \<and> role e = ''bartender'' \<and> day ev \<in> set (days e)"
    using chosen_b_subset [of ev employees a sch] by (auto simp add: assign_event_names)
  from 0 1 2 3 4 5 show ?thesis by (intro conjI)
qed

theorem malformed_records_excluded_witness:
  "\<not> well_formed_record raw_cook \<and> well_formed_record raw_waiter \<and>
   \<not> well_formed_record raw_nameless \<and> well_formed_record raw_barman \<and>
   save_employees_to_db empty_db [raw_cook, raw_waiter, raw_nameless, raw_barman] =
     save_employees_to_db empty_db [raw_waiter, raw_barman] \<and>
   map_sum id load_employees_from_db
     (save_employees_to_db empty_db [raw_cook, raw_waiter, raw_nameless, raw_barman]) =
     Inr [\<lparr> eid = 2, name = ''barman'', phone = ''972500000003'', role = ''bartender'',
            days = [''d''], rank = 2 \<rparr>,
          \<lparr> eid = 1, name = ''senior'', phone = ''972500000001'', role = ''waiter'',
            days = [''d'', ''e''], rank = 1 \<rparr>] \<and>
   fst (assign_event easy_event
       [\<lparr> eid = 2, name = ''barman'', phone = ''972500000003'', role = ''bartender'',
          days = [''d''], rank = 2 \<rparr>,
        \<lparr> eid = 1, name = ''senior'', phone = ''972500000001'', role = ''waiter'',
          days = [''d'', ''e''], rank = 1 \<rparr>] Map.empty Map.empty) =
     easy_event\<lparr> waiter_names := [''senior''], bartender_names := [''barman''],
                 missing_waiters := 2, missing_bartenders := 0 \<rparr>"
proof -
  have wf: "\<not> well_formed_record raw_cook" "well_formed_record raw_waiter"
      "\<not> well_formed_record raw_nameless" "well_formed_record raw_barman"
    by (simp_all add: well_formed_record_def raw_cook_def raw_waiter_def raw_nameless_def
        raw_barman_def or_empty_def strip_def is_space_def)
  have w: "fst (assign_event easy_event
       [\<lparr> eid = 2, name = ''barman'', phone = ''972500000003'', role = ''bartender'',
          days = [''d''], rank = 2 \<rparr>,
        \<lparr> eid = 1, name = ''senior'', phone = ''972500000001'', role = ''waiter'',
          days = [''d'', ''e''], rank = 1 \<rparr>] Map.empty Map.empty) =
      easy_event\<lparr> waiter_names := [''senior''], bartender_names := [''barman''],
                  missing_waiters := 2, missing_bartenders := 0 \<rparr>"
    by (simp add: assign_defs sample_defs)
  show ?thesis
    using malformed_records_excluded [where d = empty_db
        and raw = "[raw_cook, raw_waiter, raw_nameless, raw_barman]"
        and r = "''waiter''" and ev = easy_event
        and employees = "[\<lparr> eid = 2, name = ''barman'', phone = ''972500000003'',
            role = ''bartender'', days = [''d''], rank = 2 \<rparr>,
          \<lparr> eid = 1, name = ''senior'', phone = ''972500000001'', role = ''waiter'',
            days = [''d'', ''e''], rank = 1 \<rparr>]"
        and a = Map.empty and sch = Map.empty]
      wf w sample_roster
    by simp
qed

text \<open>
  Handed to \<^verbatim>\<open>assign_event\<close> directly, a waiter with an empty name is a candidate and
  is assigned, under the empty name.
\<close>

theorem nameless_assigned_counterexample:
  "name nameless_waiter = [] \<and>
   sorted_pool ''waiter'' easy_event [nameless_waiter] Map.empty = [nameless_waiter] \<and>
   waiter_names (fst (assign_event easy_event [nameless_waiter] Map.empty Map.empty)) = [[]]"
  by (simp add: assign_defs sample_defs nameless_waiter_def)

end
